theory Spec2Isabelle
  imports Main
begin

section \<open>Process outcomes\<close>

text \<open>
  A C function of the repository either returns or ends the process. \<open>err(code, ...)\<close> and
  \<open>exit(code)\<close> end it with an exit status, a failed \<open>assert\<close> aborts it, and reading
  through a null or dangling pointer, reading past an array and signed overflow are
  undefined behaviour; a loop may also never end. Each is a value of \<open>failure\<close>; a function that may fail returns
  \<open>failure + 'a\<close>, with \<open>Inl\<close> for the failure.
\<close>

datatype failure = Exit int | Abort | Undefined | Diverge

definition INT_MAX :: int where
  "INT_MAX = 2147483647"

section \<open>negotiate.c: data\<close>

datatype op_code = OP_SUCCESS | OP_ERROR | OP_QUIT | OP_EXISTS | OP_CREATE | OP_NOOP

definition STDIN_FILENO :: int where
  "STDIN_FILENO = 0"

definition STDOUT_FILENO :: int where
  "STDOUT_FILENO = 1"

text \<open>
  Modelled from the spec: the header \<open>sgsh-negotiate.h\<close> with the \<open>PROT_STATE_*\<close>
  constants is not part of the sources; the spec lists the three values of \<open>state_flag\<close>.
\<close>

datatype prot_state = PROT_STATE_NEGOTIATION | PROT_STATE_NEGOTIATION_END | PROT_STATE_ERROR

record dispatcher_node =
  index :: int
  fd_direction :: int

text \<open>The fields \<open>from\<close> and \<open>to\<close> of \<open>struct sgsh_edge\<close>.\<close>

record sgsh_edge =
  edge_from :: int
  edge_to :: int

record sgsh_node =
  pid :: int
  name :: string
  requires_channels :: int
  provides_channels :: int
  sgsh_in :: int
  sgsh_out :: int

text \<open>
  The fields \<open>node_array\<close> and \<open>edge_array\<close> of the block hold addresses. A
  \<open>block_pointer\<close> says where such an address points, seen from the allocation that holds
  the block: \<open>Null\<close>; \<open>Within off\<close>, the byte \<open>off\<close> bytes behind the start of that
  allocation; or \<open>Elsewhere\<close>, any other address (memory that was freed or moved, the
  memory of another process, an indeterminate value).
\<close>

datatype block_pointer = Null | Within int | Elsewhere

text \<open>
  The message block is one allocation: the header, then the nodes, then the edges. The
  model keeps what the allocation holds behind the header as the lists \<open>nodes\<close> (the
  node records from the first byte behind the header on) and \<open>edges\<close> (the edge records
  that lie behind them). The \<open>version\<close> field is written once and never read, and is
  left out.
\<close>

record sgsh_negotiation =
  node_array :: block_pointer
  n_nodes :: int
  edge_array :: block_pointer
  n_edges :: int
  initiator_pid :: int
  state_flag :: prot_state
  serial_no :: int
  origin :: dispatcher_node
  total_size :: nat
  nodes :: "sgsh_node list"
  edges :: "sgsh_edge list"

text \<open>The sizes of the three structs, as an LP64 ABI lays them out.\<close>

definition sizeof_sgsh_negotiation :: nat where
  "sizeof_sgsh_negotiation = 64"

definition sizeof_sgsh_node :: nat where
  "sizeof_sgsh_node = 120"

definition sizeof_sgsh_edge :: nat where
  "sizeof_sgsh_edge = 8"

text \<open>
  The bytes of a block copied into another allocation (\<open>memcpy\<close> into a buffer or into
  a new \<open>malloc\<close> block, also in another process) keep the two addresses; an address
  that pointed into the old allocation points outside the new one.
\<close>

definition copied_address :: "block_pointer \<Rightarrow> block_pointer" where
  "copied_address p = (case p of Within off \<Rightarrow> Elsewhere | _ \<Rightarrow> p)"

definition relocated :: "sgsh_negotiation \<Rightarrow> sgsh_negotiation" where
  "relocated mb = mb\<lparr>node_array := copied_address (node_array mb),
                      edge_array := copied_address (edge_array mb)\<rparr>"

text \<open>
  Reading \<open>node_array[i]\<close> and \<open>edge_array[i]\<close> of a block. The read is defined when
  the pointer points to where the records lie (the nodes directly behind the header, the
  edges directly behind the stored nodes) and \<open>i\<close> is the index of a stored record.
  \<open>None\<close> is every other read: through a null or foreign pointer, through a pointer
  to another place, or at an index outside the stored records.
\<close>

definition node_at :: "sgsh_negotiation \<Rightarrow> int \<Rightarrow> sgsh_node option" where
  "node_at mb i =
     (if node_array mb = Within (int sizeof_sgsh_negotiation)
         \<and> 0 \<le> i \<and> i < int (length (nodes mb))
      then Some (nodes mb ! nat i) else None)"

definition edges_offset :: "sgsh_negotiation \<Rightarrow> int" where
  "edges_offset mb =
     int sizeof_sgsh_negotiation + int (length (nodes mb)) * int sizeof_sgsh_node"

definition edge_at :: "sgsh_negotiation \<Rightarrow> int \<Rightarrow> sgsh_edge option" where
  "edge_at mb i =
     (if edge_array mb = Within (edges_offset mb) \<and> 0 \<le> i \<and> i < int (length (edges mb))
      then Some (edges mb ! nat i) else None)"

text \<open>
  The three file-scope variables of the negotiator, and two logs of its effects: the
  blocks handed to \<open>free\<close>, and the \<open>write\<close> calls (descriptor, block written, byte count).
\<close>

record negotiator =
  chosen_mb :: "sgsh_negotiation option"
  self_node :: sgsh_node
  self_dispatcher :: dispatcher_node
  freed :: "sgsh_negotiation list"
  written :: "(int \<times> sgsh_negotiation \<times> nat) list"

section \<open>negotiate.c: operations\<close>

text \<open>\<open>set_dispatcher\<close>: stamp the block with this tool's index and write side.\<close>

definition set_dispatcher :: "negotiator \<Rightarrow> failure + negotiator" where
  "set_dispatcher st =
     (case chosen_mb st of
        None \<Rightarrow> Inl Undefined
      | Some mb \<Rightarrow>
          if index (self_dispatcher st) \<ge> 0
          then Inr (st\<lparr>chosen_mb := Some (mb\<lparr>origin := self_dispatcher st\<rparr>)\<rparr>)
          else Inl Abort)"

text \<open>
  \<open>write_mb\<close>. The comparison \<open>total_size > buf_size\<close> converts the \<open>int\<close> to \<open>size_t\<close>.
  The result is the return code, the transmit buffer and the state. The buffer and the
  write log keep the block as this process holds it; the bytes carry its two array
  addresses, and a process that copies them into an allocation of its own holds the
  \<open>relocated\<close> block.
\<close>

definition size_t_of_int :: "int \<Rightarrow> nat" where
  "size_t_of_int i = nat (i mod 2 ^ 64)"

definition write_mb ::
  "sgsh_negotiation option \<Rightarrow> int \<Rightarrow> negotiator
     \<Rightarrow> failure + (op_code \<times> sgsh_negotiation option \<times> negotiator)" where
  "write_mb buf buf_size st =
     (case chosen_mb st of
        None \<Rightarrow> Inl Undefined
      | Some mb \<Rightarrow>
          if total_size mb > size_t_of_int buf_size then Inr (OP_ERROR, buf, st)
          else
            (case set_dispatcher st of
               Inl e \<Rightarrow> Inl e
             | Inr st1 \<Rightarrow>
                 (case chosen_mb st1 of
                    None \<Rightarrow> Inl Undefined
                  | Some mb1 \<Rightarrow>
                      Inr (OP_SUCCESS, Some mb1,
                           st1\<lparr>written := written st1 @
                             [(fd_direction (self_dispatcher st1), mb1, total_size mb1)]\<rparr>))))"

text \<open>
  \<open>check_negotiation_round\<close>: the round counter and the state. The counter is an \<open>int\<close>;
  incrementing \<open>INT_MAX\<close> is undefined.
\<close>

definition check_negotiation_round ::
  "int \<Rightarrow> int \<Rightarrow> negotiator \<Rightarrow> failure + (int \<times> negotiator)" where
  "check_negotiation_round negotiation_round updated_mb_serial_no st =
     (case chosen_mb st of
        None \<Rightarrow> Inl Undefined
      | Some mb \<Rightarrow>
          if pid (self_node st) = initiator_pid mb then
            if negotiation_round = INT_MAX then Inl Undefined
            else if negotiation_round + 1 = 3 \<and> updated_mb_serial_no = 0 then
              if serial_no mb = INT_MAX then Inl Undefined
              else Inr (negotiation_round + 1,
                        st\<lparr>chosen_mb := Some (mb\<lparr>state_flag := PROT_STATE_NEGOTIATION_END,
                                                   serial_no := serial_no mb + 1\<rparr>)\<rparr>)
            else Inr (negotiation_round + 1, st)
          else Inr (negotiation_round, st))"


text \<open>
  The first \<open>memcpy\<close> of \<open>realloc_mb_new_node\<close> reads \<open>n_edges\<close> edges through
  \<open>edge_array\<close> into a local array of \<open>n_edges\<close> elements. A negative \<open>n_edges\<close>
  is a negative array length; a copy of no bytes reads nothing, whatever the pointer
  holds.
\<close>

definition copy_edges :: "sgsh_negotiation \<Rightarrow> sgsh_edge list option" where
  "copy_edges mb =
     (if n_edges mb < 0 then None
      else if n_edges mb = 0 then Some []
      else if edge_at mb (n_edges mb - 1) = None then None
      else Some (take (nat (n_edges mb)) (edges mb)))"

text \<open>
  \<open>realloc_mb_new_node\<close>. The edges are copied aside and, after \<open>realloc\<close>, copied
  back behind the enlarged node region, where \<open>edge_array\<close> then points; \<open>realloc_ok\<close>
  says whether \<open>realloc\<close> returned a block (a failure ends the process through \<open>err\<close>).
  The slot of the new node is in the allocation; the caller fills it.
\<close>

definition realloc_mb_new_node :: "bool \<Rightarrow> negotiator \<Rightarrow> failure + (op_code \<times> negotiator)" where
  "realloc_mb_new_node realloc_ok st =
     (case chosen_mb st of
        None \<Rightarrow> Inl Undefined
      | Some mb \<Rightarrow>
          (case copy_edges mb of
             None \<Rightarrow> Inl Undefined
           | Some edge_array_store \<Rightarrow>
               if \<not> realloc_ok then Inl (Exit 1)
               else Inr (OP_SUCCESS,
                      st\<lparr>chosen_mb := Some (mb\<lparr>
                        total_size := total_size mb + sizeof_sgsh_node,
                        node_array := Within (int sizeof_sgsh_negotiation),
                        edge_array := Within (int sizeof_sgsh_negotiation
                                              + (n_nodes mb + 1) * int sizeof_sgsh_node),
                        edges := edge_array_store\<rparr>)\<rparr>)))"

text \<open>
  \<open>lookup_sgsh_edge\<close>: the loop over the first \<open>n_edges\<close> elements of \<open>edge_array\<close>,
  from index \<open>i\<close>.
\<close>

function lookup_sgsh_edge_from :: "sgsh_negotiation \<Rightarrow> sgsh_edge \<Rightarrow> int \<Rightarrow> failure + op_code" where
  "lookup_sgsh_edge_from mb e i =
     (if i < n_edges mb then
        (case edge_at mb i of
           None \<Rightarrow> Inl Undefined
         | Some x \<Rightarrow>
             if edge_from x = edge_from e \<and> edge_to x = edge_to e then Inr OP_EXISTS
             else lookup_sgsh_edge_from mb e (i + 1))
      else Inr OP_CREATE)"
  by pat_completeness auto
termination
  by (relation "measure (\<lambda>(mb, e, i). nat (n_edges mb - i))") auto

declare lookup_sgsh_edge_from.simps [simp del]

definition lookup_sgsh_edge :: "sgsh_edge \<Rightarrow> negotiator \<Rightarrow> failure + op_code" where
  "lookup_sgsh_edge e st =
     (case chosen_mb st of
        None \<Rightarrow> Inl Undefined
      | Some mb \<Rightarrow> lookup_sgsh_edge_from mb e 0)"

text \<open>
  The loop of \<open>fill_sgsh_edge\<close>, \<open>for (i = 0; n_nodes; i++) if (i == origin.index) break;\<close>:
  its condition is \<open>n_nodes\<close> itself. The result is the value of \<open>i\<close> after the loop;
  \<open>None\<close> is the overflow of \<open>i\<close>.
\<close>

function dispatcher_loop :: "int \<Rightarrow> int \<Rightarrow> int \<Rightarrow> int option" where
  "dispatcher_loop n origin_index i =
     (if n \<noteq> 0 then
        (if i = origin_index then Some i
         else if i < INT_MAX then dispatcher_loop n origin_index (i + 1)
         else None)
      else Some i)"
  by pat_completeness auto
termination
  by (relation "measure (\<lambda>(n, origin_index, i). nat (INT_MAX - i))") auto

declare dispatcher_loop.simps [simp del]

text \<open>
  \<open>fill_sgsh_edge\<close>. The edge \<open>e\<close> comes in as the caller's uninitialised local; the
  \<open>err\<close> call ends the process, so the \<open>return OP_ERROR\<close> behind it is never reached.
\<close>

definition fill_sgsh_edge :: "sgsh_edge \<Rightarrow> negotiator \<Rightarrow> failure + (op_code \<times> sgsh_edge)" where
  "fill_sgsh_edge e st =
     (case chosen_mb st of
        None \<Rightarrow> Inl Undefined
      | Some mb \<Rightarrow>
          (case dispatcher_loop (n_nodes mb) (index (origin mb)) 0 of
             None \<Rightarrow> Inl Undefined
           | Some i \<Rightarrow>
               if i = n_nodes mb then Inl (Exit 1)
               else if fd_direction (origin mb) = STDIN_FILENO then
                 if sgsh_out (self_node st) = 0 then Inl Abort
                 else if \<not> ((sgsh_in (self_node st) \<noteq> 0
                              \<and> fd_direction (self_dispatcher st) = STDIN_FILENO)
                            \<or> fd_direction (self_dispatcher st) = STDOUT_FILENO) then Inl Abort
                 else Inr (OP_SUCCESS, e\<lparr>edge_to := index (origin mb),
                                          edge_from := index (self_dispatcher st)\<rparr>)
               else if fd_direction (origin mb) = STDOUT_FILENO then
                 if sgsh_in (self_node st) = 0 then Inl Abort
                 else if \<not> ((sgsh_out (self_node st) \<noteq> 0
                              \<and> fd_direction (self_dispatcher st) = STDOUT_FILENO)
                            \<or> fd_direction (self_dispatcher st) = STDIN_FILENO) then Inl Abort
                 else Inr (OP_SUCCESS, e\<lparr>edge_from := index (origin mb),
                                          edge_to := index (self_dispatcher st)\<rparr>)
               else Inr (OP_SUCCESS, e)))"

text \<open>\<open>realloc_mb_new_edge\<close>: one more edge of room, both array pointers set again.\<close>

definition realloc_mb_new_edge :: "bool \<Rightarrow> negotiator \<Rightarrow> failure + (op_code \<times> negotiator)" where
  "realloc_mb_new_edge realloc_ok st =
     (case chosen_mb st of
        None \<Rightarrow> Inl Undefined
      | Some mb \<Rightarrow>
          if \<not> realloc_ok then Inl (Exit 1)
          else Inr (OP_SUCCESS,
                 st\<lparr>chosen_mb := Some (mb\<lparr>
                   total_size := total_size mb + sizeof_sgsh_edge,
                   node_array := Within (int sizeof_sgsh_negotiation),
                   edge_array := Within (int sizeof_sgsh_negotiation
                                         + n_nodes mb * int sizeof_sgsh_node)\<rparr>)\<rparr>))"

text \<open>
  Storing into element \<open>n\<close> of an array that holds \<open>xs\<close>: the elements before \<open>n\<close> stay,
  element \<open>n\<close> is the new one. An index that is negative or leaves a gap is outside the
  allocation. \<open>node_store\<close> and \<open>edge_store\<close> store through the two pointers of the
  block, which have to point to where the records lie.
\<close>

definition array_store :: "'a list \<Rightarrow> int \<Rightarrow> 'a \<Rightarrow> 'a list option" where
  "array_store xs n x =
     (if 0 \<le> n \<and> n \<le> int (length xs) then Some (take (nat n) xs @ [x]) else None)"

definition node_store :: "sgsh_negotiation \<Rightarrow> int \<Rightarrow> sgsh_node \<Rightarrow> sgsh_node list option" where
  "node_store mb n x =
     (if node_array mb = Within (int sizeof_sgsh_negotiation) then array_store (nodes mb) n x
      else None)"

definition edge_store :: "sgsh_negotiation \<Rightarrow> int \<Rightarrow> sgsh_edge \<Rightarrow> sgsh_edge list option" where
  "edge_store mb n x =
     (if edge_array mb = Within (edges_offset mb) then array_store (edges mb) n x else None)"

text \<open>
  \<open>try_add_sgsh_edge\<close>. \<open>new_edge\<close> is the uninitialised local; the return code of
  \<open>fill_sgsh_edge\<close> is not looked at. Incrementing an \<open>int\<close> that holds \<open>INT_MAX\<close> is
  undefined.
\<close>

definition try_add_sgsh_edge ::
  "bool \<Rightarrow> sgsh_edge \<Rightarrow> negotiator \<Rightarrow> failure + (op_code \<times> negotiator)" where
  "try_add_sgsh_edge realloc_ok new_edge st =
     (case chosen_mb st of
        None \<Rightarrow> Inl Undefined
      | Some mb \<Rightarrow>
          if index (origin mb) \<ge> 0 then
            (case fill_sgsh_edge new_edge st of
               Inl f \<Rightarrow> Inl f
             | Inr (_, e) \<Rightarrow>
                 (case lookup_sgsh_edge e st of
                    Inl f \<Rightarrow> Inl f
                  | Inr OP_CREATE \<Rightarrow>
                      (case realloc_mb_new_edge realloc_ok st of
                         Inl f \<Rightarrow> Inl f
                       | Inr (OP_ERROR, st1) \<Rightarrow> Inr (OP_ERROR, st1)
                       | Inr (_, st1) \<Rightarrow>
                           (case chosen_mb st1 of
                              None \<Rightarrow> Inl Undefined
                            | Some mb1 \<Rightarrow>
                                (case edge_store mb1 (n_edges mb) e of
                                   None \<Rightarrow> Inl Undefined
                                 | Some es \<Rightarrow>
                                     if n_edges mb1 = INT_MAX then Inl Undefined
                                     else if serial_no mb1 = INT_MAX then Inl Undefined
                                     else Inr (OP_SUCCESS,
                                            st1\<lparr>chosen_mb := Some (mb1\<lparr>
                                              edges := es,
                                              n_edges := n_edges mb1 + 1,
                                              serial_no := serial_no mb1 + 1\<rparr>)\<rparr>))))
                  | Inr _ \<Rightarrow> Inr (OP_EXISTS, st)))
          else Inr (OP_NOOP, st))"

text \<open>
  The search loop of \<open>try_add_sgsh_node\<close> over the first \<open>n_nodes\<close> elements of
  \<open>node_array\<close>: the value of \<open>i\<close> after it.
\<close>

function find_node :: "sgsh_negotiation \<Rightarrow> int \<Rightarrow> int \<Rightarrow> int option" where
  "find_node mb p i =
     (if i < n_nodes mb then
        (case node_at mb i of
           None \<Rightarrow> None
         | Some x \<Rightarrow> if pid x = p then Some i else find_node mb p (i + 1))
      else Some i)"
  by pat_completeness auto
termination
  by (relation "measure (\<lambda>(mb, p, i). nat (n_nodes mb - i))") auto

declare find_node.simps [simp del]

text \<open>\<open>try_add_sgsh_node\<close>; \<open>None\<close> from the loop is a read outside the node array.\<close>

definition try_add_sgsh_node :: "bool \<Rightarrow> negotiator \<Rightarrow> failure + (op_code \<times> negotiator)" where
  "try_add_sgsh_node realloc_ok st =
     (case chosen_mb st of
        None \<Rightarrow> Inl Undefined
      | Some mb \<Rightarrow>
          (case find_node mb (pid (self_node st)) 0 of
             None \<Rightarrow> Inl Undefined
           | Some i \<Rightarrow>
               if i = n_nodes mb then
                 (case realloc_mb_new_node realloc_ok st of
                    Inl f \<Rightarrow> Inl f
                  | Inr (OP_ERROR, st1) \<Rightarrow> Inr (OP_ERROR, st1)
                  | Inr (_, st1) \<Rightarrow>
                      (case chosen_mb st1 of
                         None \<Rightarrow> Inl Undefined
                       | Some mb1 \<Rightarrow>
                           (case node_store mb1 (n_nodes mb) (self_node st1) of
                              None \<Rightarrow> Inl Undefined
                            | Some ns \<Rightarrow>
                                if n_nodes mb1 = INT_MAX then Inl Undefined
                                else if serial_no mb1 = INT_MAX then Inl Undefined
                                else Inr (OP_SUCCESS,
                                       st1\<lparr>self_dispatcher :=
                                             (self_dispatcher st1)\<lparr>index := n_nodes mb\<rparr>,
                                           chosen_mb := Some (mb1\<lparr>
                                             nodes := ns,
                                             n_nodes := n_nodes mb1 + 1,
                                             serial_no := serial_no mb1 + 1\<rparr>)\<rparr>))))
               else Inr (OP_EXISTS,
                      st\<lparr>self_dispatcher := (self_dispatcher st)\<lparr>index := i\<rparr>\<rparr>)))"

text \<open>
  \<open>compete_message_block\<close>. The result carries the return code, the state and the two
  out-parameters \<open>should_transmit_mb\<close> and \<open>updated_mb_serial_no\<close>. \<open>node_ok\<close> and
  \<open>edge_ok\<close> are the outcomes of the two possible \<open>realloc\<close> calls, \<open>new_edge\<close> the
  uninitialised local of \<open>try_add_sgsh_edge\<close>.
\<close>

definition compete_message_block ::
  "bool \<Rightarrow> bool \<Rightarrow> sgsh_edge \<Rightarrow> sgsh_negotiation option \<Rightarrow> negotiator
     \<Rightarrow> failure + (op_code \<times> negotiator \<times> int \<times> int)" where
  "compete_message_block node_ok edge_ok new_edge fresh_mb st =
     (case fresh_mb of
        None \<Rightarrow> Inl Undefined
      | Some fresh \<Rightarrow>
          (case chosen_mb st of
             None \<Rightarrow> Inl Undefined
           | Some chosen \<Rightarrow>
               if initiator_pid fresh < initiator_pid chosen then
                 (case try_add_sgsh_node node_ok
                         (st\<lparr>freed := freed st @ [chosen], chosen_mb := Some fresh\<rparr>) of
                    Inl f \<Rightarrow> Inl f
                  | Inr (OP_ERROR, st1) \<Rightarrow> Inr (OP_ERROR, st1, 1, 0)
                  | Inr (_, st1) \<Rightarrow>
                      (case try_add_sgsh_edge edge_ok new_edge st1 of
                         Inl f \<Rightarrow> Inl f
                       | Inr (OP_ERROR, st2) \<Rightarrow> Inr (OP_ERROR, st2, 1, 0)
                       | Inr (_, st2) \<Rightarrow> Inr (OP_SUCCESS, st2, 1, 1)))
               else if initiator_pid fresh > initiator_pid chosen then
                 Inr (OP_SUCCESS, st\<lparr>freed := freed st @ [fresh]\<rparr>, 0, 0)
               else
                 (let (st1, updated) =
                        (if serial_no fresh > serial_no chosen
                         then (st\<lparr>freed := freed st @ [chosen], chosen_mb := Some fresh\<rparr>, 1)
                         else (st\<lparr>freed := freed st @ [fresh]\<rparr>, 0))
                  in case try_add_sgsh_edge edge_ok new_edge st1 of
                       Inl f \<Rightarrow> Inl f
                     | Inr (OP_ERROR, st2) \<Rightarrow> Inr (OP_ERROR, st2, 1, updated)
                     | Inr (_, st2) \<Rightarrow> Inr (OP_SUCCESS, st2, 1, updated))))"

text \<open>
  \<open>construct_message_block\<close>. \<open>raw\<close> is what \<open>malloc\<close> returned: a header-sized block
  of indeterminate content (\<open>None\<close> when \<open>malloc\<close> failed). The function assigns neither
  \<open>n_edges\<close> nor \<open>edge_array\<close>, so both keep the content of \<open>raw\<close>. The block has no room
  behind the header.
\<close>

definition construct_message_block ::
  "sgsh_negotiation option \<Rightarrow> int \<Rightarrow> negotiator \<Rightarrow> failure + (op_code \<times> negotiator)" where
  "construct_message_block raw self_pid st =
     (case raw of
        None \<Rightarrow> Inl (Exit 1)
      | Some m \<Rightarrow>
          Inr (OP_SUCCESS,
               st\<lparr>chosen_mb := Some (m\<lparr>
                 node_array := Null,
                 n_nodes := 0,
                 initiator_pid := self_pid,
                 state_flag := PROT_STATE_NEGOTIATION,
                 serial_no := 0,
                 origin := \<lparr>index = - 1, fd_direction = - 1\<rparr>,
                 total_size := sizeof_sgsh_negotiation,
                 nodes := [],
                 edges := []\<rparr>)\<rparr>))"


text \<open>\<open>point_io_direction\<close>: the side the next write goes to.\<close>

definition point_io_direction :: "int \<Rightarrow> negotiator \<Rightarrow> negotiator" where
  "point_io_direction current_direction st =
     (if current_direction = STDIN_FILENO \<and> sgsh_out (self_node st) \<noteq> 0
      then st\<lparr>self_dispatcher := (self_dispatcher st)\<lparr>fd_direction := STDOUT_FILENO\<rparr>\<rparr>
      else if current_direction = STDOUT_FILENO \<and> sgsh_in (self_node st) \<noteq> 0
      then st\<lparr>self_dispatcher := (self_dispatcher st)\<lparr>fd_direction := STDIN_FILENO\<rparr>\<rparr>
      else st)"

text \<open>
  \<open>alloc_copy_mb\<close>. The parameter \<open>mb\<close> is the caller's pointer, passed by value; the
  function reads \<open>mb->total_size\<close> through it and then assigns the new allocation to its
  own copy of the pointer. The result is the return code and that local pointer, which
  holds the copy of the buffer; the function returns only the code to its caller.
\<close>

definition alloc_copy_mb ::
  "sgsh_negotiation option \<Rightarrow> sgsh_negotiation option \<Rightarrow> int \<Rightarrow> int \<Rightarrow> bool
     \<Rightarrow> failure + (op_code \<times> sgsh_negotiation option)" where
  "alloc_copy_mb mb buf bytes_read buf_size malloc_ok =
     (case mb of
        None \<Rightarrow> Inl Undefined
      | Some m \<Rightarrow>
          if size_t_of_int bytes_read \<noteq> total_size m then Inl (Exit 1)
          else if bytes_read > buf_size then Inl (Exit 1)
          else if \<not> malloc_ok then Inl Undefined
          else Inr (OP_SUCCESS, map_option relocated buf))"

text \<open>
  What one \<open>read\<close> call does: it delivers a number of bytes and the block they hold,
  or fails with an \<open>errno\<close>.
\<close>

datatype read_result = Read_bytes int "sgsh_negotiation option" | Read_error int

definition EAGAIN :: int where
  "EAGAIN = 11"

text \<open>
  \<open>call_read\<close>: return code, buffer, \<open>*fd_side\<close>, \<open>*bytes_read\<close> and \<open>*error_code\<close>.
\<close>

definition call_read ::
  "read_result \<Rightarrow> sgsh_negotiation option
     \<Rightarrow> op_code \<times> sgsh_negotiation option \<times> int \<times> int \<times> int" where
  "call_read r buf =
     (let (buf1, bytes_read, error_code) =
            (case r of
               Read_bytes n b \<Rightarrow> (b, n, 0)
             | Read_error errno \<Rightarrow> (buf, - 1, - errno))
      in if error_code = 0 \<or> error_code \<noteq> - EAGAIN
         then (OP_QUIT, buf1, 1, bytes_read, error_code)
         else (OP_SUCCESS, buf1, 0, bytes_read, error_code))"

text \<open>
  The polling loop of \<open>try_read_message_block\<close> over the results of the successive
  \<open>read\<close> calls, standard input first: \<open>stdin_side\<close>, \<open>bytes_read\<close>, \<open>error_code\<close> and
  the buffer when it leaves the loop. \<open>None\<close>: every listed call said \<open>EAGAIN\<close> and the
  loop is still polling.
\<close>

fun read_either ::
  "read_result list \<Rightarrow> sgsh_negotiation option
     \<Rightarrow> (int \<times> int \<times> int \<times> sgsh_negotiation option) option" where
  "read_either [] buf = None"
| "read_either [r] buf =
     (case call_read r buf of
        (OP_QUIT, buf1, side, n, ec) \<Rightarrow> Some (side, n, ec, buf1)
      | _ \<Rightarrow> None)"
| "read_either (r1 # r2 # rs) buf =
     (case call_read r1 buf of
        (OP_QUIT, buf1, side, n, ec) \<Rightarrow> Some (side, n, ec, buf1)
      | (_, buf1, side, _, _) \<Rightarrow>
          (case call_read r2 buf1 of
             (OP_QUIT, buf2, _, n, ec) \<Rightarrow> Some (side, n, ec, buf2)
           | (_, buf2, _, _, _) \<Rightarrow> read_either rs buf2))"

text \<open>
  \<open>try_read_message_block\<close>. \<open>fresh_mb\<close> is the caller's pointer, passed by value. The
  result is the return code, the buffer, the caller's \<open>fresh_mb\<close> after the call and the
  state. The pointer that \<open>alloc_copy_mb\<close> allocated is not part of what comes back.
\<close>

definition try_read_message_block ::
  "sgsh_negotiation option \<Rightarrow> int \<Rightarrow> sgsh_negotiation option \<Rightarrow> bool \<Rightarrow> read_result list
     \<Rightarrow> negotiator
     \<Rightarrow> (failure + (op_code \<times> sgsh_negotiation option \<times> sgsh_negotiation option \<times> negotiator))
          option" where
  "try_read_message_block buf buf_size fresh_mb malloc_ok rs st =
     (case read_either rs buf of
        None \<Rightarrow> None
      | Some (stdin_side, bytes_read, error_code, buf1) \<Rightarrow>
          Some (if bytes_read = - 1 then Inl (Exit 1)
                else
                  (case alloc_copy_mb fresh_mb buf1 bytes_read buf_size malloc_ok of
                     Inl f \<Rightarrow> Inl f
                   | Inr (OP_ERROR, _) \<Rightarrow> Inr (OP_ERROR, buf1, fresh_mb, st)
                   | Inr (_, _) \<Rightarrow>
                       Inr (OP_SUCCESS, buf1, fresh_mb, point_io_direction stdin_side st))))"

text \<open>
  The locals of \<open>sgsh_negotiate\<close> that its loop uses, and what one iteration draws from
  outside: the results of its \<open>read\<close> calls, whether its \<open>malloc\<close> and \<open>realloc\<close> calls
  succeed, and the uninitialised edge local.
\<close>

record loop_vars =
  negotiation_round :: int
  should_transmit_mb :: int
  updated_mb_serial_no :: int
  buf :: "sgsh_negotiation option"
  fresh_mb :: "sgsh_negotiation option"

record round_io =
  reads :: "read_result list"
  malloc_ok :: bool
  node_ok :: bool
  edge_ok :: bool
  new_edge :: sgsh_edge

text \<open>
  How \<open>sgsh_negotiate\<close> leaves its loop: \<open>return OP_ERROR\<close>, \<open>return PROT_STATE_ERROR\<close>,
  or on to \<open>allocate_io_connections\<close>.
\<close>

datatype loop_exit = Return_op op_code | Return_state prot_state | Loop_end

text \<open>
  The loop test and the first half of the loop body: the round check, the conditional
  \<open>write_mb\<close>, and the test for the end state. \<open>None\<close> in the first component: the
  iteration goes on to read.
\<close>

definition transmit_round ::
  "int \<Rightarrow> loop_vars \<Rightarrow> negotiator \<Rightarrow> failure + (loop_exit option \<times> loop_vars \<times> negotiator)" where
  "transmit_round buf_size v st =
     (case chosen_mb st of
        None \<Rightarrow> Inl Undefined
      | Some mb \<Rightarrow>
          if state_flag mb \<noteq> PROT_STATE_NEGOTIATION then Inr (Some Loop_end, v, st)
          else
            (case check_negotiation_round (negotiation_round v) (updated_mb_serial_no v) st of
               Inl f \<Rightarrow> Inl f
             | Inr (r, st1) \<Rightarrow>
                 (case (if should_transmit_mb v \<noteq> 0 then write_mb (buf v) buf_size st1
                        else Inr (OP_SUCCESS, buf v, st1)) of
                    Inl f \<Rightarrow> Inl f
                  | Inr (OP_ERROR, b, st2) \<Rightarrow>
                      Inr (Some (Return_op OP_ERROR), v\<lparr>negotiation_round := r, buf := b\<rparr>, st2)
                  | Inr (_, b, st2) \<Rightarrow>
                      (case chosen_mb st2 of
                         None \<Rightarrow> Inl Undefined
                       | Some mb2 \<Rightarrow>
                           Inr (if state_flag mb2 = PROT_STATE_NEGOTIATION_END
                                then Some Loop_end else None,
                                v\<lparr>negotiation_round := r, buf := b\<rparr>, st2)))))"

text \<open>The second half of the loop body: read a block, let it compete.\<close>

definition receive_round ::
  "int \<Rightarrow> round_io \<Rightarrow> loop_vars \<Rightarrow> negotiator
     \<Rightarrow> (failure + (loop_exit option \<times> loop_vars \<times> negotiator)) option" where
  "receive_round buf_size io v st =
     (case try_read_message_block (buf v) buf_size (fresh_mb v) (malloc_ok io) (reads io) st of
        None \<Rightarrow> None
      | Some (Inl f) \<Rightarrow> Some (Inl f)
      | Some (Inr (OP_ERROR, b, fr, st1)) \<Rightarrow>
          Some (Inr (Some (Return_state PROT_STATE_ERROR), v\<lparr>buf := b, fresh_mb := fr\<rparr>, st1))
      | Some (Inr (_, b, fr, st1)) \<Rightarrow>
          Some (case compete_message_block (node_ok io) (edge_ok io) (new_edge io) fr st1 of
                  Inl f \<Rightarrow> Inl f
                | Inr (OP_ERROR, st2, tr, up) \<Rightarrow>
                    Inr (Some (Return_state PROT_STATE_ERROR),
                         v\<lparr>buf := b, fresh_mb := fr, should_transmit_mb := tr,
                           updated_mb_serial_no := up\<rparr>, st2)
                | Inr (_, st2, tr, up) \<Rightarrow>
                    Inr (None,
                         v\<lparr>buf := b, fresh_mb := fr, should_transmit_mb := tr,
                           updated_mb_serial_no := up\<rparr>, st2)))"

text \<open>
  The loop of \<open>sgsh_negotiate\<close>, one \<open>round_io\<close> for each iteration that gets to read.
  \<open>None\<close>: the loop has not left yet when the list is used up.
\<close>

fun negotiation_loop ::
  "int \<Rightarrow> round_io list \<Rightarrow> loop_vars \<Rightarrow> negotiator
     \<Rightarrow> (failure + (loop_exit \<times> loop_vars \<times> negotiator)) option" where
  "negotiation_loop buf_size [] v st =
     (case transmit_round buf_size v st of
        Inl f \<Rightarrow> Some (Inl f)
      | Inr (Some x, v1, st1) \<Rightarrow> Some (Inr (x, v1, st1))
      | Inr (None, v1, st1) \<Rightarrow> None)"
| "negotiation_loop buf_size (io # ios) v st =
     (case transmit_round buf_size v st of
        Inl f \<Rightarrow> Some (Inl f)
      | Inr (Some x, v1, st1) \<Rightarrow> Some (Inr (x, v1, st1))
      | Inr (None, v1, st1) \<Rightarrow>
          (case receive_round buf_size io v1 st1 of
             None \<Rightarrow> None
           | Some (Inl f) \<Rightarrow> Some (Inl f)
           | Some (Inr (Some x, v2, st2)) \<Rightarrow> Some (Inr (x, v2, st2))
           | Some (Inr (None, v2, st2)) \<Rightarrow> negotiation_loop buf_size ios v2 st2))"


text \<open>\<open>fill_sgsh_node\<close>: the name is copied into an array of 100 characters.\<close>

definition fill_sgsh_node :: "string \<Rightarrow> int \<Rightarrow> int \<Rightarrow> int \<Rightarrow> negotiator \<Rightarrow> failure + negotiator" where
  "fill_sgsh_node tool_name p requires provides st =
     (if length tool_name + 1 > 100 then Inl Undefined
      else Inr (st\<lparr>self_node := (self_node st)\<lparr>pid := p, name := tool_name,
                     requires_channels := requires, provides_channels := provides\<rparr>\<rparr>))"

text \<open>
  \<open>sgsh_negotiate\<close> up to its loop. \<open>env_in\<close> and \<open>env_out\<close> are the integer values of
  \<open>SGSH_IN\<close> and \<open>SGSH_OUT\<close> (\<open>None\<close>: not set), \<open>self_pid\<close> and \<open>buf_size\<close> what
  \<open>getpid\<close> and \<open>getpagesize\<close> return, \<open>raw\<close> the block from \<open>malloc\<close> for an initiator,
  \<open>io\<close> what the first read and the two insertions draw from outside. The result is the
  locals at loop entry and the state, or an early \<open>return\<close>.
\<close>

definition sgsh_negotiate_start ::
  "string \<Rightarrow> int \<Rightarrow> int \<Rightarrow> int option \<Rightarrow> int option \<Rightarrow> int \<Rightarrow> int
     \<Rightarrow> sgsh_negotiation option \<Rightarrow> round_io \<Rightarrow> negotiator
     \<Rightarrow> (failure + (loop_exit option \<times> loop_vars \<times> negotiator)) option" where
  "sgsh_negotiate_start tool_name channels_required channels_provided env_in env_out
       self_pid buf_size raw io st =
     (let v = \<lparr>negotiation_round = 0, should_transmit_mb = 1, updated_mb_serial_no = 1,
                buf = None, fresh_mb = None\<rparr>
      in case (env_in, env_out) of
           (Some i, Some out) \<Rightarrow>
             (let st0 = st\<lparr>self_node := (self_node st)\<lparr>sgsh_in := i, sgsh_out := out\<rparr>\<rparr>;
                  got =
                    (if out \<noteq> 0 \<and> i = 0 then
                       Some (case construct_message_block raw self_pid st0 of
                               Inl f \<Rightarrow> Inl f
                             | Inr (OP_ERROR, st1) \<Rightarrow>
                                 Inr (Some (Return_state PROT_STATE_ERROR), v, st1)
                             | Inr (_, st1) \<Rightarrow>
                                 Inr (None, v,
                                      st1\<lparr>self_dispatcher :=
                                            (self_dispatcher st1)\<lparr>fd_direction := STDOUT_FILENO\<rparr>\<rparr>))
                     else
                       (case try_read_message_block (buf v) buf_size (fresh_mb v) (malloc_ok io)
                               (reads io) (st0\<lparr>chosen_mb := None\<rparr>) of
                          None \<Rightarrow> None
                        | Some (Inl f) \<Rightarrow> Some (Inl f)
                        | Some (Inr (OP_ERROR, b, fr, st1)) \<Rightarrow>
                            Some (Inr (Some (Return_state PROT_STATE_ERROR),
                                       v\<lparr>buf := b, fresh_mb := fr\<rparr>, st1))
                        | Some (Inr (_, b, fr, st1)) \<Rightarrow>
                            Some (Inr (None, v\<lparr>buf := b, fresh_mb := fr\<rparr>,
                                       st1\<lparr>chosen_mb := fr\<rparr>))))
              in case got of
                   None \<Rightarrow> None
                 | Some (Inl f) \<Rightarrow> Some (Inl f)
                 | Some (Inr (Some x, v1, st1)) \<Rightarrow> Some (Inr (Some x, v1, st1))
                 | Some (Inr (None, v1, st1)) \<Rightarrow>
                     Some (case fill_sgsh_node tool_name self_pid channels_required
                                  channels_provided st1 of
                             Inl f \<Rightarrow> Inl f
                           | Inr st2 \<Rightarrow>
                               (case try_add_sgsh_node (node_ok io) st2 of
                                  Inl f \<Rightarrow> Inl f
                                | Inr (OP_ERROR, st3) \<Rightarrow>
                                    Inr (Some (Return_state PROT_STATE_ERROR), v1, st3)
                                | Inr (_, st3) \<Rightarrow>
                                    (case try_add_sgsh_edge (edge_ok io) (new_edge io) st3 of
                                       Inl f \<Rightarrow> Inl f
                                     | Inr (OP_ERROR, st4) \<Rightarrow>
                                         Inr (Some (Return_state PROT_STATE_ERROR), v1, st4)
                                     | Inr (_, st4) \<Rightarrow> Inr (None, v1, st4)))))
         | _ \<Rightarrow> Some (Inl (Exit 1)))"


section \<open>sgsh-writeval.c: data\<close>

text \<open>
  A buffer of the queue. \<open>b_next\<close>, \<open>b_prev\<close> and \<open>b_size\<close> are the fields \<open>next\<close>,
  \<open>prev\<close> and \<open>size\<close>; pointers to buffers are addresses (\<open>None\<close> is \<open>NULL\<close>).
  \<open>data\<close> holds the bytes that were read into the buffer. The two counters are
  \<open>long long\<close> in the source; \<open>set_buffer_counters\<close>, which computes them, keeps
  them in that range.
\<close>

record buffer =
  b_next :: "nat option"
  b_prev :: "nat option"
  b_size :: int
  timestamp :: int
  record_count :: int
  byte_count :: int
  data :: "char list"

text \<open>\<open>struct dpointer\<close>: the fields \<open>b\<close> and \<open>pos\<close>.\<close>

record dpointer =
  dp_b :: "nat option"
  dp_pos :: int

datatype client_state =
  s_inactive | s_read_command | s_send_current | s_send_last | s_sending_response | s_wait_close

text \<open>
  \<open>struct client\<close>, and with it the bytes that the peer of the connection has been
  sent so far (\<open>received\<close>).
\<close>

record client =
  fd :: int
  write_begin :: dpointer
  write_end :: dpointer
  state :: client_state
  received :: "char list"

text \<open>
  The memory that holds the buffers: address \<open>a\<close> is cell \<open>a\<close> of the list, \<open>None\<close> once
  the buffer is freed. \<open>malloc\<close> takes the next address.
\<close>

type_synonym memory = "buffer option list"

definition buffer_at :: "memory \<Rightarrow> nat \<Rightarrow> buffer option" where
  "buffer_at m a = (if a < length m then m ! a else None)"

definition free_buffer :: "memory \<Rightarrow> nat \<Rightarrow> memory" where
  "free_buffer m a = m[a := None]"

definition store_buffer :: "memory \<Rightarrow> nat \<Rightarrow> buffer \<Rightarrow> memory" where
  "store_buffer m a x = m[a := Some x]"

definition allocated :: "memory \<Rightarrow> nat" where
  "allocated m = length (filter (\<lambda>c. c \<noteq> None) m)"

text \<open>
  The file-scope variables of the value store: the options, the two flags, the queue,
  the record cursors and the clients; \<open>socket_bound\<close> says whether the socket path
  exists (\<open>unlink\<close> clears it).
\<close>

record store =
  rs :: char
  rl :: int
  time_window :: bool
  record_rbegin :: int
  record_rend :: int
  reached_eof :: bool
  have_record :: bool
  mem :: memory
  head :: "nat option"
  tail :: "nat option"
  oldest_buffer_being_written :: "nat option"
  current_record_begin :: dpointer
  current_record_end :: dpointer
  clients :: "client list"
  socket_bound :: bool

definition MAX_CLIENTS :: nat where
  "MAX_CLIENTS = 64"

definition CONTENT_LENGTH_DIGITS :: int where
  "CONTENT_LENGTH_DIGITS = 10"

text \<open>
  What a \<open>read\<close>, \<open>writev\<close> or \<open>accept\<close> call returns: a count (or descriptor) with
  the bytes read, or \<open>-1\<close> with an \<open>errno\<close>.
\<close>

datatype io_result = Io_ok int "char list" | Io_error int

text \<open>C integer division and remainder truncate towards zero.\<close>

definition c_div :: "int \<Rightarrow> int \<Rightarrow> int" where
  "c_div a d = sgn a * sgn d * (\<bar>a\<bar> div \<bar>d\<bar>)"

definition c_mod :: "int \<Rightarrow> int \<Rightarrow> int" where
  "c_mod a d = a - d * c_div a d"

text \<open>Conversion of an \<open>int\<close> to \<open>unsigned int\<close>.\<close>

definition unsigned_of_int :: "int \<Rightarrow> nat" where
  "unsigned_of_int i = nat (i mod 2 ^ 32)"

text \<open>
  The counters of a buffer are \<open>long long\<close>. \<open>long_long v\<close> is the result of an
  arithmetic operation whose mathematical value is \<open>v\<close>: the value when it fits, and
  \<open>None\<close> when the operation overflows, which is undefined.
\<close>

definition LLONG_MAX :: int where
  "LLONG_MAX = 9223372036854775807"

definition LLONG_MIN :: int where
  "LLONG_MIN = - 9223372036854775808"

definition long_long :: "int \<Rightarrow> int option" where
  "long_long v = (if LLONG_MIN \<le> v \<and> v \<le> LLONG_MAX then Some v else None)"

section \<open>sgsh-writeval.c: cursors\<close>

text \<open>\<open>dpointer_increment\<close>: the return value and the cursor.\<close>

definition dpointer_increment :: "memory \<Rightarrow> dpointer \<Rightarrow> failure + (bool \<times> dpointer)" where
  "dpointer_increment m dp =
     (case dp_b dp of
        None \<Rightarrow> Inl Undefined
      | Some a \<Rightarrow>
          (case buffer_at m a of
             None \<Rightarrow> Inl Undefined
           | Some x \<Rightarrow>
               if dp_pos dp + 1 = b_size x then
                 (case b_next x of
                    None \<Rightarrow> Inr (False, dp\<lparr>dp_pos := dp_pos dp + 1\<rparr>)
                  | Some n \<Rightarrow> Inr (True, \<lparr>dp_b = Some n, dp_pos = 0\<rparr>))
               else Inr (True, dp\<lparr>dp_pos := dp_pos dp + 1\<rparr>)))"

text \<open>\<open>dpointer_decrement\<close>.\<close>

definition dpointer_decrement :: "memory \<Rightarrow> dpointer \<Rightarrow> failure + (bool \<times> dpointer)" where
  "dpointer_decrement m dp =
     (if dp_pos dp - 1 = - 1 then
        (case dp_b dp of
           None \<Rightarrow> Inl Undefined
         | Some a \<Rightarrow>
             (case buffer_at m a of
                None \<Rightarrow> Inl Undefined
              | Some x \<Rightarrow>
                  (case b_prev x of
                     None \<Rightarrow> Inr (False, dp)
                   | Some p \<Rightarrow>
                       (case buffer_at m p of
                          None \<Rightarrow> Inl Undefined
                        | Some y \<Rightarrow> Inr (True, \<lparr>dp_b = Some p, dp_pos = b_size y - 1\<rparr>)))))
      else Inr (True, dp\<lparr>dp_pos := dp_pos dp - 1\<rparr>))"

text \<open>
  \<open>dpointer_subtract\<close>. The loop follows \<open>prev\<close> pointers; \<open>None\<close> is a loop that does
  not end.
\<close>

partial_function (option) dpointer_subtract ::
  "memory \<Rightarrow> dpointer \<Rightarrow> int \<Rightarrow> (failure + dpointer) option" where
  "dpointer_subtract m dp n =
     (if n > 0 then
        (let subtract = min (dp_pos dp + 1) n;
             pos1 = dp_pos dp - subtract
         in if pos1 = - 1 then
              (case dp_b dp of
                 None \<Rightarrow> Some (Inl Undefined)
               | Some a \<Rightarrow>
                   (case buffer_at m a of
                      None \<Rightarrow> Some (Inl Undefined)
                    | Some x \<Rightarrow>
                        (case b_prev x of
                           None \<Rightarrow> Some (Inl Abort)
                         | Some p \<Rightarrow>
                             (case buffer_at m p of
                                None \<Rightarrow> Some (Inl Undefined)
                              | Some y \<Rightarrow>
                                  dpointer_subtract m \<lparr>dp_b = Some p, dp_pos = b_size y - 1\<rparr>
                                    (n - subtract)))))
            else dpointer_subtract m (dp\<lparr>dp_pos := pos1\<rparr>) (n - subtract))
      else Some (Inr dp))"

declare dpointer_subtract.simps [code]

text \<open>The byte under a cursor, \<open>dp->b->data[dp->pos]\<close>.\<close>

definition byte_at :: "memory \<Rightarrow> dpointer \<Rightarrow> failure + char" where
  "byte_at m dp =
     (case dp_b dp of
        None \<Rightarrow> Inl Undefined
      | Some a \<Rightarrow>
          (case buffer_at m a of
             None \<Rightarrow> Inl Undefined
           | Some x \<Rightarrow>
               if 0 \<le> dp_pos dp \<and> dp_pos dp < int (length (data x))
               then Inr (data x ! nat (dp_pos dp)) else Inl Undefined))"

text \<open>
  \<open>dpointer_move_back\<close>: \<open>sep\<close> is the record separator. \<open>--n\<close> runs only when the
  byte is the separator, or when the start of the queue is reached.
\<close>

partial_function (option) dpointer_move_back ::
  "char \<Rightarrow> memory \<Rightarrow> dpointer \<Rightarrow> int \<Rightarrow> (failure + dpointer) option" where
  "dpointer_move_back sep m dp n =
     (case dpointer_decrement m dp of
        Inl f \<Rightarrow> Some (Inl f)
      | Inr (moved, dp1) \<Rightarrow>
          if moved then
            (case byte_at m dp1 of
               Inl f \<Rightarrow> Some (Inl f)
             | Inr c \<Rightarrow>
                 if c = sep then
                   (if n - 1 = - 1 then
                      (case dpointer_increment m dp1 of
                         Inl f \<Rightarrow> Some (Inl f)
                       | Inr (_, dp2) \<Rightarrow> Some (Inr dp2))
                    else dpointer_move_back sep m dp1 (n - 1))
                 else dpointer_move_back sep m dp1 n)
          else if n - 1 = - 1 then Some (Inr dp1) else Some (Inl Abort))"

declare dpointer_move_back.simps [code]


section \<open>sgsh-writeval.c: the queue of buffers\<close>

text \<open>A call that does not return is the failure \<open>Diverge\<close> for its caller.\<close>

definition returned :: "(failure + 'a) option \<Rightarrow> failure + 'a" where
  "returned r = (case r of None \<Rightarrow> Inl Diverge | Some x \<Rightarrow> x)"

text \<open>
  The loop of \<open>oldest_buffer\<close> at the buffer \<open>p\<close>: the first of \<open>a\<close> and \<open>b\<close> that
  the queue reaches; running off the queue fails the \<open>assert\<close>.
\<close>

partial_function (option) oldest_buffer_from ::
  "memory \<Rightarrow> nat \<Rightarrow> nat \<Rightarrow> nat \<Rightarrow> (failure + nat) option" where
  "oldest_buffer_from m a b p =
     (if p = a then Some (Inr a)
      else if p = b then Some (Inr b)
      else
        (case buffer_at m p of
           None \<Rightarrow> Some (Inl Undefined)
         | Some x \<Rightarrow>
             (case b_next x of
                None \<Rightarrow> Some (Inl Abort)
              | Some q \<Rightarrow> oldest_buffer_from m a b q)))"

declare oldest_buffer_from.simps [code]

definition oldest_buffer ::
  "memory \<Rightarrow> nat option \<Rightarrow> nat option \<Rightarrow> nat option \<Rightarrow> failure + nat option" where
  "oldest_buffer m q_head a b =
     (case a of
        None \<Rightarrow> Inr b
      | Some a1 \<Rightarrow>
          (case b of
             None \<Rightarrow> Inr a
           | Some b1 \<Rightarrow>
               (case q_head of
                  None \<Rightarrow> Inl Abort
                | Some p \<Rightarrow>
                    (case returned (oldest_buffer_from m a1 b1 p) of
                       Inl f \<Rightarrow> Inl f
                     | Inr q \<Rightarrow> Inr (Some q)))))"

text \<open>The loop of \<open>update_oldest_buffer\<close> over the clients, \<open>acc\<close> the oldest so far.\<close>

fun oldest_of_clients ::
  "memory \<Rightarrow> nat option \<Rightarrow> client list \<Rightarrow> nat option \<Rightarrow> failure + nat option" where
  "oldest_of_clients m q_head [] acc = Inr acc"
| "oldest_of_clients m q_head (c # cs) acc =
     (if state c = s_sending_response then
        (case oldest_buffer m q_head acc (dp_b (write_begin c)) of
           Inl f \<Rightarrow> Inl f
         | Inr p \<Rightarrow> oldest_of_clients m q_head cs p)
      else oldest_of_clients m q_head cs acc)"

definition update_oldest_buffer :: "store \<Rightarrow> (failure \<times> store) + store" where
  "update_oldest_buffer st =
     (case oldest_of_clients (mem st) (head st) (clients st) None of
        Inl f \<Rightarrow> Inl (f, st)
      | Inr p \<Rightarrow> Inr (st\<lparr>oldest_buffer_being_written := p\<rparr>))"

lemma allocated_free_buffer:
  "a < length m \<Longrightarrow> m ! a \<noteq> None \<Longrightarrow> allocated (free_buffer m a) < allocated m"
proof (induction m arbitrary: a)
  case Nil
  then show ?case by simp
next
  case (Cons c m)
  show ?case
  proof (cases a)
    case 0
    with Cons.prems show ?thesis by (simp add: allocated_def free_buffer_def)
  next
    case (Suc k)
    with Cons.prems have "allocated (free_buffer m k) < allocated m"
      by (intro Cons.IH) simp_all
    with Suc show ?thesis by (simp add: allocated_def free_buffer_def)
  qed
qed

text \<open>
  The loop of \<open>free_unused_buffers\<close>, at buffer \<open>bp\<close>: \<open>keep1\<close> is
  \<open>current_record_begin.b\<close>, \<open>keep2\<close> is \<open>oldest_buffer_being_written\<close>. The result is
  the memory and the buffer that becomes the head. Every turn of the loop frees a
  buffer, so the loop ends.
\<close>

function free_unused_from ::
  "nat option \<Rightarrow> nat option \<Rightarrow> memory \<Rightarrow> nat option \<Rightarrow> failure + (memory \<times> nat)" where
  "free_unused_from keep1 keep2 m bp =
     (case bp of
        None \<Rightarrow> Inl Abort
      | Some p \<Rightarrow>
          (case buffer_at m p of
             None \<Rightarrow> Inl Undefined
           | Some x \<Rightarrow>
               if Some p = keep1 \<or> Some p = keep2
               then Inr (store_buffer m p (x\<lparr>b_prev := None\<rparr>), p)
               else free_unused_from keep1 keep2 (free_buffer m p) (b_next x)))"
  by pat_completeness auto
termination
proof (relation "measure (\<lambda>(keep1, keep2, m, bp). allocated m)")
  show "wf (measure (\<lambda>(keep1, keep2, m, bp). allocated m))" by simp
next
  fix keep1 keep2 :: "nat option" and m :: memory and bp :: "nat option" and p x
  assume "bp = Some p" and "buffer_at m p = Some x"
  then have "p < length m" and "m ! p \<noteq> None"
    by (auto simp: buffer_at_def split: if_splits)
  then show "((keep1, keep2, free_buffer m p, b_next x), keep1, keep2, m, bp)
               \<in> measure (\<lambda>(keep1, keep2, m, bp). allocated m)"
    by (simp add: allocated_free_buffer)
qed

declare free_unused_from.simps [simp del]

definition free_unused_buffers :: "store \<Rightarrow> (failure \<times> store) + store" where
  "free_unused_buffers st =
     (case free_unused_from (dp_b (current_record_begin st)) (oldest_buffer_being_written st)
             (mem st) (head st) of
        Inl f \<Rightarrow> Inl (f, st)
      | Inr (m, p) \<Rightarrow> Inr (st\<lparr>mem := m, head := Some p\<rparr>))"

text \<open>
  \<open>content_length\<close>: the loop over the buffers between the two cursors, at the
  buffer \<open>p\<close> with the length \<open>len\<close> so far, and the function. The sum is an
  \<open>unsigned int\<close>.
\<close>

partial_function (option) content_length_from ::
  "memory \<Rightarrow> nat option \<Rightarrow> nat \<Rightarrow> int \<Rightarrow> (failure + int) option" where
  "content_length_from m stop p len =
     (case buffer_at m p of
        None \<Rightarrow> Some (Inl Undefined)
      | Some x \<Rightarrow>
          (case b_next x of
             None \<Rightarrow> Some (Inr (len + b_size x))
           | Some q \<Rightarrow>
               if Some q = stop then Some (Inr (len + b_size x))
               else content_length_from m stop q (len + b_size x)))"

declare content_length_from.simps [code]

definition content_length :: "memory \<Rightarrow> client \<Rightarrow> failure + nat" where
  "content_length m c =
     (if dp_b (write_begin c) = dp_b (write_end c)
      then Inr (unsigned_of_int (dp_pos (write_end c) - dp_pos (write_begin c)))
      else
        (case dp_b (write_begin c) of
           None \<Rightarrow> Inl Undefined
         | Some a \<Rightarrow>
             (case buffer_at m a of
                None \<Rightarrow> Inl Undefined
              | Some x \<Rightarrow>
                  (case (case b_next x of
                           None \<Rightarrow> Inr (b_size x - dp_pos (write_begin c))
                         | Some q \<Rightarrow>
                             if Some q = dp_b (write_end c)
                             then Inr (b_size x - dp_pos (write_begin c))
                             else returned (content_length_from m (dp_b (write_end c)) q
                                              (b_size x - dp_pos (write_begin c)))) of
                     Inl f \<Rightarrow> Inl f
                   | Inr len \<Rightarrow> Inr (unsigned_of_int (len + dp_pos (write_end c)))))))"

section \<open>sgsh-writeval.c: the current record\<close>

text \<open>The three cursor movements of \<open>update_current_record_by_rs\<close>, then the trim.\<close>

definition update_current_record_by_rs :: "store \<Rightarrow> (failure \<times> store) + store" where
  "update_current_record_by_rs st =
     (case tail st of
        None \<Rightarrow> Inl (Undefined, st)
      | Some t \<Rightarrow>
          (case buffer_at (mem st) t of
             None \<Rightarrow> Inl (Undefined, st)
           | Some x \<Rightarrow>
               (case returned (dpointer_move_back (rs st) (mem st)
                                 \<lparr>dp_b = Some t, dp_pos = b_size x\<rparr> 0) of
                  Inl f \<Rightarrow> Inl (f, st)
                | Inr e1 \<Rightarrow>
                    (case returned (dpointer_move_back (rs st) (mem st) e1 (record_rbegin st)) of
                       Inl f \<Rightarrow> Inl (f, st)
                     | Inr e2 \<Rightarrow>
                         (case returned (dpointer_move_back (rs st) (mem st) e2
                                           (record_rend st - record_rbegin st)) of
                            Inl f \<Rightarrow> Inl (f, st)
                          | Inr b1 \<Rightarrow>
                              free_unused_buffers
                                (st\<lparr>current_record_end := e2, current_record_begin := b1,
                                    have_record := True\<rparr>))))))"

definition update_current_record_by_rl :: "store \<Rightarrow> (failure \<times> store) + store" where
  "update_current_record_by_rl st =
     (case tail st of
        None \<Rightarrow> Inl (Undefined, st)
      | Some t \<Rightarrow>
          (case buffer_at (mem st) t of
             None \<Rightarrow> Inl (Undefined, st)
           | Some x \<Rightarrow>
               (case returned (dpointer_subtract (mem st) \<lparr>dp_b = Some t, dp_pos = b_size x\<rparr>
                                 (c_mod (byte_count x) (rl st))) of
                  Inl f \<Rightarrow> Inl (f, st)
                | Inr e1 \<Rightarrow>
                    (case returned (dpointer_subtract (mem st) e1 (record_rbegin st * rl st)) of
                       Inl f \<Rightarrow> Inl (f, st)
                     | Inr e2 \<Rightarrow>
                         (case returned (dpointer_subtract (mem st) e2
                                           ((record_rend st - record_rbegin st) * rl st)) of
                            Inl f \<Rightarrow> Inl (f, st)
                          | Inr b1 \<Rightarrow>
                              free_unused_buffers
                                (st\<lparr>current_record_end := e2, current_record_begin := b1,
                                    have_record := True\<rparr>))))))"

definition update_current_record :: "store \<Rightarrow> (failure \<times> store) + store" where
  "update_current_record st =
     (case tail st of
        None \<Rightarrow> Inl (Abort, st)
      | Some t \<Rightarrow>
          (case buffer_at (mem st) t of
             None \<Rightarrow> Inl (Undefined, st)
           | Some x \<Rightarrow>
               if record_count x - record_rend st < 0 then Inr st
               else if rl st = 0 then update_current_record_by_rs st
               else update_current_record_by_rl st))"


section \<open>sgsh-writeval.c: reading the input\<close>

text \<open>
  \<open>set_buffer_counters\<close> for the buffer at address \<open>a\<close>; \<open>now\<close> is what \<open>time\<close>
  returns. With a record separator the loop counts the separators among the first
  \<open>size\<close> bytes, one increment of \<open>record_count\<close> for each; \<open>byte_count\<close> is assigned
  in the record-length branch only. An increment, the addition of \<open>size\<close> or the division
  that leaves the range of \<open>long long\<close> is undefined.
\<close>

definition set_buffer_counters :: "int \<Rightarrow> nat \<Rightarrow> store \<Rightarrow> (failure \<times> store) + store" where
  "set_buffer_counters now a st =
     (case buffer_at (mem st) a of
        None \<Rightarrow> Inl (Undefined, st)
      | Some x \<Rightarrow>
          (let x1 = (if time_window st then x\<lparr>timestamp := now\<rparr> else x)
           in case (case b_prev x of
                      None \<Rightarrow> Some None
                    | Some p \<Rightarrow> map_option Some (buffer_at (mem st) p)) of
                None \<Rightarrow> Inl (Undefined, st)
              | Some earlier \<Rightarrow>
                  if rl st = 0 then
                    if int (length (data x)) < b_size x then Inl (Undefined, st)
                    else
                      (case long_long
                              ((case earlier of None \<Rightarrow> 0 | Some y \<Rightarrow> record_count y)
                               + int (length (filter (\<lambda>c. c = rs st)
                                                (take (nat (b_size x)) (data x))))) of
                         None \<Rightarrow> Inl (Undefined, st)
                       | Some records \<Rightarrow>
                           Inr (st\<lparr>mem := store_buffer (mem st) a
                                  (x1\<lparr>record_count := records\<rparr>)\<rparr>))
                  else
                    (case long_long
                            ((case earlier of None \<Rightarrow> 0 | Some y \<Rightarrow> byte_count y)
                             + b_size x) of
                       None \<Rightarrow> Inl (Undefined, st)
                     | Some bytes \<Rightarrow>
                         (case long_long (c_div bytes (rl st)) of
                            None \<Rightarrow> Inl (Undefined, st)
                          | Some records \<Rightarrow>
                              Inr (st\<lparr>mem := store_buffer (mem st) a
                                     (x1\<lparr>byte_count := bytes,
                                         record_count := records\<rparr>)\<rparr>)))))"

text \<open>
  \<open>buffer_read\<close>. \<open>raw\<close> is the buffer that \<open>malloc\<close> returned, of indeterminate
  content (\<open>None\<close>: no memory); \<open>input\<close> is what \<open>read\<close> on standard input returned. The
  new buffer takes the next address; \<open>free\<close> leaves its cell empty.
\<close>

definition buffer_read ::
  "buffer option \<Rightarrow> int \<Rightarrow> io_result \<Rightarrow> store \<Rightarrow> (failure \<times> store) + store" where
  "buffer_read raw now input st =
     (case raw of
        None \<Rightarrow> Inl (Exit 1, st)
      | Some b0 \<Rightarrow>
          (let a = length (mem st) in
           case input of
             Io_error e \<Rightarrow>
               if e = EAGAIN then Inr (st\<lparr>mem := mem st @ [None]\<rparr>)
               else Inl (Exit 3, st\<lparr>mem := mem st @ [Some b0]\<rparr>)
           | Io_ok n bytes \<Rightarrow>
               if n = 0 then
                 if have_record st
                 then Inr (st\<lparr>reached_eof := True, mem := mem st @ [None]\<rparr>)
                 else if head st = None then
                   Inr (st\<lparr>reached_eof := True,
                          mem := mem st @ [Some (b0\<lparr>b_size := 0, b_prev := None,
                                                     b_next := None\<rparr>)],
                          head := Some a, tail := Some a,
                          current_record_begin := \<lparr>dp_b = Some a, dp_pos = 0\<rparr>,
                          current_record_end := \<lparr>dp_b = Some a, dp_pos = 0\<rparr>,
                          have_record := True\<rparr>)
                 else
                   (case tail st of
                      None \<Rightarrow> Inl (Undefined, st\<lparr>reached_eof := True, mem := mem st @ [None]\<rparr>)
                    | Some t \<Rightarrow>
                        (case buffer_at (mem st) t of
                           None \<Rightarrow>
                             Inl (Undefined, st\<lparr>reached_eof := True, mem := mem st @ [None]\<rparr>)
                         | Some x \<Rightarrow>
                             Inr (st\<lparr>reached_eof := True, mem := mem st @ [None],
                                    current_record_begin := \<lparr>dp_b = head st, dp_pos = 0\<rparr>,
                                    current_record_end := \<lparr>dp_b = tail st, dp_pos = b_size x\<rparr>,
                                    have_record := True\<rparr>)))
               else
                 (let m1 = mem st @ [Some (b0\<lparr>b_size := n, data := bytes, b_prev := tail st,
                                             b_next := None\<rparr>)]
                  in case (case tail st of
                             None \<Rightarrow> Some m1
                           | Some t \<Rightarrow>
                               map_option (\<lambda>x. store_buffer m1 t (x\<lparr>b_next := Some a\<rparr>))
                                 (buffer_at m1 t)) of
                       None \<Rightarrow> Inl (Undefined, st)
                     | Some m2 \<Rightarrow>
                         (case set_buffer_counters now a
                                 (st\<lparr>mem := m2, tail := Some a,
                                     head := (if head st = None then Some a else head st)\<rparr>) of
                            Inl f \<Rightarrow> Inl f
                          | Inr st1 \<Rightarrow> update_current_record st1))))"

section \<open>sgsh-writeval.c: talking to a client\<close>

text \<open>Replacing client \<open>i\<close> of the array.\<close>

definition with_client :: "store \<Rightarrow> nat \<Rightarrow> client \<Rightarrow> store" where
  "with_client st i c = st\<lparr>clients := (clients st)[i := c]\<rparr>"

text \<open>
  \<open>read_command\<close> for client \<open>i\<close>; \<open>input\<close> is what \<open>read\<close> of one byte on its socket
  returned.
\<close>

definition read_command :: "nat \<Rightarrow> io_result \<Rightarrow> store \<Rightarrow> (failure \<times> store) + store" where
  "read_command i input st =
     (if length (clients st) \<le> i then Inl (Undefined, st)
      else
        (case input of
           Io_error e \<Rightarrow> if e = EAGAIN then Inr st else Inl (Exit 3, st)
         | Io_ok n bytes \<Rightarrow>
             if n = 0
             then update_oldest_buffer (with_client st i ((clients st ! i)\<lparr>state := s_inactive\<rparr>))
             else
               (case bytes of
                  [] \<Rightarrow> Inl (Undefined, st)
                | cmd # _ \<Rightarrow>
                    if cmd = CHR ''L''
                    then Inr (with_client st i ((clients st ! i)\<lparr>state := s_send_last\<rparr>))
                    else if cmd = CHR ''Q''
                    then Inl (Exit 0, st\<lparr>socket_bound := False\<rparr>)
                    else if cmd = CHR ''C''
                    then Inr (with_client st i ((clients st ! i)\<lparr>state := s_send_current\<rparr>))
                    else Inl (Exit 1, st))))"

text \<open>
  The output of \<open>printf\<close> for \<open>%010u\<close>: the decimal digits, padded with zeros on the
  left to ten characters.
\<close>

fun decimal :: "nat \<Rightarrow> string" where
  "decimal n = (if n < 10 then [''0123456789'' ! n]
                else decimal (n div 10) @ [''0123456789'' ! (n mod 10)])"

declare decimal.simps [simp del]

definition printf_010u :: "nat \<Rightarrow> string" where
  "printf_010u n = replicate (10 - length (decimal n)) CHR ''0'' @ decimal n"

text \<open>
  The parts of \<open>write_record\<close>. \<open>towrite_from\<close> is the number of bytes of the buffer
  \<open>x\<close> under the begin cursor that are to be written: up to the end cursor when it is in
  the same buffer, up to the end of the buffer otherwise.
\<close>

definition towrite_from :: "client \<Rightarrow> buffer \<Rightarrow> int" where
  "towrite_from c x =
     (if dp_b (write_begin c) = dp_b (write_end c)
      then dp_pos (write_end c) - dp_pos (write_begin c)
      else b_size x - dp_pos (write_begin c))"

text \<open>
  The end of \<open>write_record\<close>, after \<open>n\<close> data bytes were written: the cursor moves on
  in the buffer, or to the next buffer, or the client is done.
\<close>

definition advance_write :: "client \<Rightarrow> buffer \<Rightarrow> int \<Rightarrow> client" where
  "advance_write c x n =
     (let pos1 = dp_pos (write_begin c) + n
      in if pos1 < b_size x
            \<and> (dp_b (write_begin c) \<noteq> dp_b (write_end c) \<or> pos1 < dp_pos (write_end c))
         then c\<lparr>write_begin := (write_begin c)\<lparr>dp_pos := pos1\<rparr>\<rparr>
         else if dp_b (write_begin c) \<noteq> dp_b (write_end c)
         then c\<lparr>write_begin := \<lparr>dp_b = b_next x, dp_pos = 0\<rparr>\<rparr>
         else c\<lparr>write_begin := (write_begin c)\<lparr>dp_pos := pos1\<rparr>, state := s_wait_close\<rparr>)"

text \<open>
  The two vectors of the \<open>writev\<close> call: the length header when \<open>write_length\<close> is set,
  and the bytes of the buffer.
\<close>

definition write_vectors :: "memory \<Rightarrow> client \<Rightarrow> buffer \<Rightarrow> bool \<Rightarrow> failure + (char list \<times> char list)" where
  "write_vectors m c x write_length =
     (if towrite_from c x < 0 \<or> dp_pos (write_begin c) < 0
         \<or> int (length (data x)) < dp_pos (write_begin c) + towrite_from c x
      then Inl Undefined
      else
        (case (if write_length
               then (case content_length m c of
                       Inl f \<Rightarrow> Inl f
                     | Inr len \<Rightarrow> Inr (take 10 (printf_010u len)))
               else Inr []) of
           Inl f \<Rightarrow> Inl f
         | Inr header \<Rightarrow>
             Inr (header, take (nat (towrite_from c x))
                            (drop (nat (dp_pos (write_begin c))) (data x)))))"

text \<open>
  \<open>write_record\<close> for client \<open>i\<close>. \<open>output\<close> is what the socket does with the
  \<open>writev\<close> call: it fails with an \<open>errno\<close>, or it has room for so many bytes, and
  \<open>writev\<close> returns the number \<open>n\<close> of bytes it wrote, at most what the two vectors
  hold. The peer receives those \<open>n\<close> bytes.
\<close>

definition write_record :: "nat \<Rightarrow> bool \<Rightarrow> io_result \<Rightarrow> store \<Rightarrow> (failure \<times> store) + store" where
  "write_record i write_length output st =
     (if length (clients st) \<le> i then Inl (Undefined, st)
      else
        (case dp_b (write_begin (clients st ! i)) of
           None \<Rightarrow> Inl (Undefined, st)
         | Some a \<Rightarrow>
             (case buffer_at (mem st) a of
                None \<Rightarrow> Inl (Undefined, st)
              | Some x \<Rightarrow>
                  (case write_vectors (mem st) (clients st ! i) x write_length of
                     Inl f \<Rightarrow> Inl (f, st)
                   | Inr (header, bytes) \<Rightarrow>
                       (case output of
                          Io_error e \<Rightarrow> if e = EAGAIN then Inr st else Inl (Exit 3, st)
                        | Io_ok room _ \<Rightarrow>
                            (let n = min (max room 0) (int (length (header @ bytes)));
                                 c1 = (clients st ! i)
                                        \<lparr>received := received (clients st ! i)
                                                       @ take (nat n) (header @ bytes)\<rparr>
                             in if write_length \<and> n < CONTENT_LENGTH_DIGITS
                                then Inl (Exit 1, with_client st i c1)
                                else Inr (with_client st i
                                            (advance_write c1 x
                                               (if write_length then n - CONTENT_LENGTH_DIGITS
                                                else n)))))))))"

text \<open>\<open>get_free_client\<close>: the index of the first inactive client.\<close>

definition get_free_client :: "store \<Rightarrow> (failure \<times> store) + nat" where
  "get_free_client st =
     (case filter (\<lambda>i. state (clients st ! i) = s_inactive) [0..<length (clients st)] of
        [] \<Rightarrow> Inl (Exit 1, st)
      | i # _ \<Rightarrow> Inr i)"

section \<open>sgsh-writeval.c: the loop of main\<close>

text \<open>
  Which client descriptors the loop hands to \<open>select\<close>: in \<open>source_fds\<close> to read from,
  in \<open>sink_fds\<close> to write to.
\<close>

definition in_source_fds :: "store \<Rightarrow> client \<Rightarrow> bool" where
  "in_source_fds st c = (state c = s_wait_close \<or> state c = s_read_command)"

definition in_sink_fds :: "store \<Rightarrow> client \<Rightarrow> bool" where
  "in_sink_fds st c =
     (case state c of
        s_send_last \<Rightarrow> reached_eof st
      | s_send_current \<Rightarrow> have_record st
      | s_sending_response \<Rightarrow> True
      | _ \<Rightarrow> False)"

text \<open>
  The second \<open>switch\<close> of the loop for client \<open>i\<close>: \<open>readable\<close> and \<open>writable\<close> are
  \<open>FD_ISSET\<close> of its descriptor in the two sets after \<open>select\<close>, \<open>io\<close> is what the
  \<open>read\<close> or \<open>writev\<close> call on its socket returns.
\<close>

definition serve_client ::
  "nat \<Rightarrow> bool \<Rightarrow> bool \<Rightarrow> io_result \<Rightarrow> store \<Rightarrow> (failure \<times> store) + store" where
  "serve_client i readable writable io st =
     (if length (clients st) \<le> i then Inl (Undefined, st)
      else
        (let c = clients st ! i in
         if state c = s_inactive then Inr st
         else if state c = s_read_command \<or> state c = s_wait_close then
           (if readable then read_command i io st else Inr st)
         else if state c = s_send_last \<or> state c = s_send_current then
           (if writable then
              if \<not> have_record st then Inl (Abort, st)
              else
                (case oldest_buffer (mem st) (head st) (oldest_buffer_being_written st)
                        (dp_b (current_record_begin st)) of
                   Inl f \<Rightarrow>
                     Inl (f, with_client st i
                               (c\<lparr>write_begin := current_record_begin st,
                                  write_end := current_record_end st,
                                  state := s_sending_response\<rparr>))
                 | Inr p \<Rightarrow>
                     write_record i True io
                       ((with_client st i
                           (c\<lparr>write_begin := current_record_begin st,
                              write_end := current_record_end st,
                              state := s_sending_response\<rparr>))
                        \<lparr>oldest_buffer_being_written := p\<rparr>))
            else Inr st)
         else
           (if writable then
              if \<not> have_record st then Inl (Abort, st) else write_record i False io st
            else Inr st)))"

text \<open>
  What one turn of the loop meets: what \<open>select\<close> reports for standard input, the
  listening socket and each client, and what the calls made then return.
\<close>

record events =
  select_ok :: bool
  stdin_ready :: bool
  stdin_raw :: "buffer option"
  stdin_now :: int
  stdin_io :: io_result
  client_readable :: "nat \<Rightarrow> bool"
  client_writable :: "nat \<Rightarrow> bool"
  client_io :: "nat \<Rightarrow> io_result"
  sock_ready :: bool
  accept_io :: io_result
  non_block_ok :: bool

text \<open>
  The clients in turn, from index \<open>i\<close>. \<open>at_select\<close> is the state when the
  descriptor sets were filled: \<open>select\<close> reports only descriptors that were put into
  a set.
\<close>

function serve_clients :: "events \<Rightarrow> store \<Rightarrow> nat \<Rightarrow> store \<Rightarrow> (failure \<times> store) + store" where
  "serve_clients ev at_select i st =
     (if i < MAX_CLIENTS then
        (if length (clients at_select) \<le> i then Inl (Undefined, st)
         else
           (case serve_client i
                   (in_source_fds at_select (clients at_select ! i) \<and> client_readable ev i)
                   (in_sink_fds at_select (clients at_select ! i) \<and> client_writable ev i)
                   (client_io ev i) st of
              Inl f \<Rightarrow> Inl f
            | Inr st1 \<Rightarrow> serve_clients ev at_select (i + 1) st1))
      else Inr st)"
  by pat_completeness auto
termination
  by (relation "measure (\<lambda>(ev, at_select, i, st). MAX_CLIENTS - i)") auto

declare serve_clients.simps [simp del]

text \<open>The connection part of the loop.\<close>

definition accept_client :: "events \<Rightarrow> store \<Rightarrow> (failure \<times> store) + store" where
  "accept_client ev st =
     (if sock_ready ev then
        (case accept_io ev of
           Io_error e \<Rightarrow>
             if e \<noteq> EAGAIN then Inl (Exit 5, st)
             else
               (case get_free_client st of
                  Inl f \<Rightarrow> Inl f
                | Inr i \<Rightarrow> Inl (Exit 2, st))
         | Io_ok rsock _ \<Rightarrow>
             (case get_free_client st of
                Inl f \<Rightarrow> Inl f
              | Inr i \<Rightarrow>
                  if \<not> non_block_ok ev then Inl (Exit 2, st)
                  else Inr (with_client st i
                              ((clients st ! i)\<lparr>fd := rsock, state := s_read_command\<rparr>))))
      else Inr st)"

text \<open>One turn of the loop of \<open>main\<close>.\<close>

definition main_iteration :: "events \<Rightarrow> store \<Rightarrow> (failure \<times> store) + store" where
  "main_iteration ev st =
     (if \<not> select_ok ev then Inl (Exit 3, st)
      else
        (case (if \<not> reached_eof st \<and> stdin_ready ev
               then buffer_read (stdin_raw ev) (stdin_now ev) (stdin_io ev) st
               else Inr st) of
           Inl f \<Rightarrow> Inl f
         | Inr st1 \<Rightarrow>
             (case serve_clients ev st 0 st1 of
                Inl f \<Rightarrow> Inl f
              | Inr st2 \<Rightarrow> accept_client ev st2)))"


section \<open>negotiate.c: properties stated on the model\<close>

text \<open>
  The edge that a block implies at its receiver: the sender wrote from its input side
  (\<open>STDIN_FILENO\<close>) and is the edge's destination, or from its output side and is its
  source; the receiver is the other end.
\<close>

definition implied_edge :: "dispatcher_node \<Rightarrow> int \<Rightarrow> sgsh_edge \<Rightarrow> bool" where
  "implied_edge sender self_index e =
     (if fd_direction sender = STDIN_FILENO
      then edge_to e = index sender \<and> edge_from e = self_index
      else if fd_direction sender = STDOUT_FILENO
      then edge_from e = index sender \<and> edge_to e = self_index
      else True)"

text \<open>The size equation of the block layout.\<close>

definition mb_size_ok :: "sgsh_negotiation \<Rightarrow> bool" where
  "mb_size_ok mb =
     (int (total_size mb) = int sizeof_sgsh_negotiation
        + n_nodes mb * int sizeof_sgsh_node + n_edges mb * int sizeof_sgsh_edge)"

section \<open>negotiate.c: example tools and blocks\<close>

definition tool_a :: sgsh_node where
  "tool_a = \<lparr>pid = 100, name = ''a'', requires_channels = 0, provides_channels = 1,
              sgsh_in = 0, sgsh_out = 1\<rparr>"

definition tool_b :: sgsh_node where
  "tool_b = \<lparr>pid = 200, name = ''b'', requires_channels = 1, provides_channels = 0,
              sgsh_in = 1, sgsh_out = 0\<rparr>"

definition tool_c :: sgsh_node where
  "tool_c = \<lparr>pid = 150, name = ''c'', requires_channels = 0, provides_channels = 1,
              sgsh_in = 0, sgsh_out = 1\<rparr>"

text \<open>A tool with both sides: it takes input from the graph and provides output to it.\<close>

definition tool_d :: sgsh_node where
  "tool_d = \<lparr>pid = 300, name = ''d'', requires_channels = 1, provides_channels = 1,
              sgsh_in = 1, sgsh_out = 1\<rparr>"

text \<open>The block that tool a created and sent from its output side, with serial number \<open>s\<close>.\<close>

definition block_a :: "int \<Rightarrow> sgsh_negotiation" where
  "block_a s = \<lparr>node_array = Within 64, n_nodes = 1, edge_array = Within 184, n_edges = 0,
      initiator_pid = 100, state_flag = PROT_STATE_NEGOTIATION, serial_no = s,
      origin = \<lparr>index = 0, fd_direction = 1\<rparr>, total_size = 184,
      nodes = [tool_a], edges = []\<rparr>"

text \<open>The same block after tool b added itself and the edge, sent back from b's input side.\<close>

definition block_ab :: "int \<Rightarrow> sgsh_negotiation" where
  "block_ab s = \<lparr>node_array = Within 64, n_nodes = 2, edge_array = Within 304, n_edges = 1,
      initiator_pid = 100, state_flag = PROT_STATE_NEGOTIATION, serial_no = s,
      origin = \<lparr>index = 1, fd_direction = 0\<rparr>, total_size = 312,
      nodes = [tool_a, tool_b], edges = [\<lparr>edge_from = 0, edge_to = 1\<rparr>]\<rparr>"

text \<open>
  The block of tool a after tool d added itself and the edge, sent back from d's input
  side.
\<close>

definition block_ad :: "int \<Rightarrow> sgsh_negotiation" where
  "block_ad s = \<lparr>node_array = Within 64, n_nodes = 2, edge_array = Within 304, n_edges = 1,
      initiator_pid = 100, state_flag = PROT_STATE_NEGOTIATION, serial_no = s,
      origin = \<lparr>index = 1, fd_direction = 0\<rparr>, total_size = 312,
      nodes = [tool_a, tool_d], edges = [\<lparr>edge_from = 0, edge_to = 1\<rparr>]\<rparr>"

text \<open>A block that tool c created, after b joined it.\<close>

definition block_cb :: sgsh_negotiation where
  "block_cb = \<lparr>node_array = Within 64, n_nodes = 2, edge_array = Within 304, n_edges = 1,
      initiator_pid = 150, state_flag = PROT_STATE_NEGOTIATION, serial_no = 3,
      origin = \<lparr>index = 0, fd_direction = 1\<rparr>, total_size = 312,
      nodes = [tool_c, tool_b], edges = [\<lparr>edge_from = 0, edge_to = 1\<rparr>]\<rparr>"

text \<open>A tool holding a block: its node, its index, its write side.\<close>

definition holder :: "sgsh_node \<Rightarrow> int \<Rightarrow> int \<Rightarrow> sgsh_negotiation \<Rightarrow> negotiator" where
  "holder n i d mb = \<lparr>chosen_mb = Some mb, self_node = n,
      self_dispatcher = \<lparr>index = i, fd_direction = d\<rparr>, freed = [], written = []\<rparr>"

lemmas example_defs =
  tool_a_def tool_b_def tool_c_def block_a_def block_ab_def block_cb_def holder_def
  STDIN_FILENO_def STDOUT_FILENO_def INT_MAX_def
  sizeof_sgsh_negotiation_def sizeof_sgsh_node_def sizeof_sgsh_edge_def

section \<open>sgsh-writeval.c: properties stated on the model\<close>

text \<open>
  The queue as a list: \<open>queue m p as\<close> says that following \<open>next\<close> from the pointer \<open>p\<close>
  visits exactly the buffers \<open>as\<close>, all of them allocated, and then reaches \<open>NULL\<close>.
\<close>

fun queue :: "memory \<Rightarrow> nat option \<Rightarrow> nat list \<Rightarrow> bool" where
  "queue m p [] = (p = None)"
| "queue m p (a # as) =
     (p = Some a \<and> (case buffer_at m a of None \<Rightarrow> False | Some x \<Rightarrow> queue m (b_next x) as))"


text \<open>
  Order in the queue \<open>as\<close>: \<open>x\<close> is the buffer \<open>y\<close> or comes after it. The cursors are
  in order when the record's end is at or after its begin, and every client that is
  sending a response has its begin cursor at or after \<open>oldest_buffer_being_written\<close>
  and its end cursor at or after its begin cursor. A buffer is live when one of these
  cursors points into it.
\<close>

definition at_or_after :: "nat list \<Rightarrow> nat \<Rightarrow> nat \<Rightarrow> bool" where
  "at_or_after as y x = (x \<in> set (dropWhile (\<lambda>a. a \<noteq> y) as))"



text \<open>
  The bytes between two cursors. \<open>as\<close> lists the buffers from the one under the begin
  cursor to the one under the end cursor; \<open>p\<close> and \<open>q\<close> are the positions of the two
  cursors. \<open>record_range\<close> says that the cursors and the buffers fit: the buffers are
  allocated and linked by \<open>next\<close>, only the last one is the end cursor's, the sizes are
  within the data, and the positions are within the sizes, the begin not behind the end.
\<close>

fun record_bytes :: "memory \<Rightarrow> nat list \<Rightarrow> int \<Rightarrow> int \<Rightarrow> char list" where
  "record_bytes m [] p q = []"
| "record_bytes m [a] p q =
     (case buffer_at m a of
        None \<Rightarrow> []
      | Some x \<Rightarrow> take (nat (q - p)) (drop (nat p) (data x)))"
| "record_bytes m (a # a' # as) p q =
     (case buffer_at m a of
        None \<Rightarrow> []
      | Some x \<Rightarrow> take (nat (b_size x - p)) (drop (nat p) (data x)))
     @ record_bytes m (a' # as) 0 q"

fun record_range :: "memory \<Rightarrow> nat list \<Rightarrow> int \<Rightarrow> int \<Rightarrow> bool" where
  "record_range m [] p q = False"
| "record_range m [a] p q =
     (case buffer_at m a of
        None \<Rightarrow> False
      | Some x \<Rightarrow> 0 \<le> p \<and> p \<le> q \<and> q \<le> b_size x \<and> b_size x \<le> int (length (data x)))"
| "record_range m (a # a' # as) p q =
     (case buffer_at m a of
        None \<Rightarrow> False
      | Some x \<Rightarrow> 0 \<le> p \<and> p \<le> b_size x \<and> b_size x \<le> int (length (data x))
                  \<and> b_next x = Some a' \<and> a \<noteq> last (a' # as)
                  \<and> record_range m (a' # as) 0 q)"

text \<open>
  A client's write cursors bracket the buffers \<open>as\<close>, and the bytes it has still to send.
\<close>

definition sending_cursors :: "memory \<Rightarrow> client \<Rightarrow> nat list \<Rightarrow> bool" where
  "sending_cursors m c as =
     (dp_b (write_begin c) = Some (hd as) \<and> dp_b (write_end c) = Some (last as)
      \<and> record_range m as (dp_pos (write_begin c)) (dp_pos (write_end c)))"

definition still_to_send :: "memory \<Rightarrow> client \<Rightarrow> nat list \<Rightarrow> char list" where
  "still_to_send m c as = record_bytes m as (dp_pos (write_begin c)) (dp_pos (write_end c))"

text \<open>
  Turns of the loop in which \<open>select\<close> reports client \<open>i\<close> as writable and nothing
  else, one for each listed outcome of its \<open>writev\<close> call.
\<close>

fun send_events :: "nat \<Rightarrow> io_result list \<Rightarrow> store \<Rightarrow> (failure \<times> store) + store" where
  "send_events i [] st = Inr st"
| "send_events i (w # ws) st =
     (case serve_client i False True w st of
        Inl f \<Rightarrow> Inl f
      | Inr st1 \<Rightarrow> send_events i ws st1)"

text \<open>
  Where a response stands: the client is sending and what it has received together with
  what is still to send is the whole response \<open>full\<close>, or it is done and has received
  all of it. The memory is \<open>m\<close> throughout.
\<close>

definition response_progress :: "memory \<Rightarrow> char list \<Rightarrow> nat \<Rightarrow> store \<Rightarrow> bool" where
  "response_progress m full i st =
     (i < length (clients st) \<and> have_record st \<and> mem st = m
      \<and> ((state (clients st ! i) = s_sending_response
            \<and> (\<exists>as. sending_cursors m (clients st ! i) as
                  \<and> received (clients st ! i) @ still_to_send m (clients st ! i) as = full))
           \<or> (state (clients st ! i) = s_wait_close \<and> received (clients st ! i) = full)))"

text \<open>The state of client \<open>i\<close> and the bytes its peer has received, after a run.\<close>

definition seen_by_client :: "nat \<Rightarrow> (failure \<times> store) + store \<Rightarrow> (client_state \<times> char list) option" where
  "seen_by_client i r =
     (case r of
        Inl _ \<Rightarrow> None
      | Inr st \<Rightarrow> Some (state (clients st ! i), received (clients st ! i)))"

text \<open>Running one operation after another, as long as the process lives.\<close>

definition and_then ::
  "(failure \<times> store) + store \<Rightarrow> (store \<Rightarrow> (failure \<times> store) + store)
     \<Rightarrow> (failure \<times> store) + store" where
  "and_then r f = (case r of Inl x \<Rightarrow> Inl x | Inr st \<Rightarrow> f st)"

section \<open>sgsh-writeval.c: example stores\<close>

text \<open>
  A free client slot, a zeroed buffer from \<open>malloc\<close>, and the store at start with
  record length \<open>len\<close> (0: newline-separated records) and two client slots.
\<close>

definition idle :: client where
  "idle = \<lparr>fd = - 1, write_begin = \<lparr>dp_b = None, dp_pos = 0\<rparr>,
            write_end = \<lparr>dp_b = None, dp_pos = 0\<rparr>, state = s_inactive, received = []\<rparr>"

definition raw0 :: buffer where
  "raw0 = \<lparr>b_next = None, b_prev = None, b_size = 0, timestamp = 0, record_count = 0,
            byte_count = 0, data = []\<rparr>"

definition store0 :: "int \<Rightarrow> store" where
  "store0 len = \<lparr>rs = CHR 0x0A, rl = len, time_window = False, record_rbegin = 0, record_rend = 1,
      reached_eof = False, have_record = False, mem = [], head = None, tail = None,
      oldest_buffer_being_written = None,
      current_record_begin = \<lparr>dp_b = None, dp_pos = 0\<rparr>,
      current_record_end = \<lparr>dp_b = None, dp_pos = 0\<rparr>,
      clients = [idle, idle], socket_bound = True\<rparr>"

text \<open>
  Fixed-length records of 4 bytes: the buffer \<open>AAA\<close> is counted, the buffer \<open>ABBB\<close>
  has just been linked behind it and still has the counters \<open>malloc\<close> left there.
\<close>

definition fixed_pair :: store where
  "fixed_pair = (store0 4)\<lparr>
      mem := [Some \<lparr>b_next = Some 1, b_prev = None, b_size = 3, timestamp = 0,
                    record_count = 0, byte_count = 3, data = ''AAA''\<rparr>,
              Some \<lparr>b_next = None, b_prev = Some 0, b_size = 4, timestamp = 0,
                    record_count = 77, byte_count = 99, data = ''ABBB''\<rparr>],
      head := Some 0, tail := Some 1\<rparr>"


text \<open>
  The input \<open>a\<close>, newline, \<open>bb\<close>, newline, \<open>cc\<close> has been read in one buffer, and client
  0 has asked for the current record.
\<close>

definition store_abc :: "(failure \<times> store) + store" where
  "store_abc =
     and_then (buffer_read (Some raw0) 0
                 (Io_ok 7 [CHR ''a'', CHR 0x0A, CHR ''b'', CHR ''b'', CHR 0x0A, CHR ''c'', CHR ''c''])
                 (store0 0))
       (\<lambda>st. Inr (with_client st 0 (idle\<lparr>fd := 5, state := s_send_current\<rparr>)))"


text \<open>
  Newline-separated records: the buffer holding \<open>a\<close> and a newline is counted, the
  buffer with two more records has just been linked behind it and still has the counters
  \<open>malloc\<close> left there.
\<close>

definition separated_pair :: store where
  "separated_pair = (store0 0)\<lparr>
      mem := [Some \<lparr>b_next = Some 1, b_prev = None, b_size = 2, timestamp = 0,
                    record_count = 1, byte_count = 5, data = [CHR ''a'', CHR 0x0A]\<rparr>,
              Some \<lparr>b_next = None, b_prev = Some 0, b_size = 4, timestamp = 0,
                    record_count = 77, byte_count = 3,
                    data = [CHR ''b'', CHR 0x0A, CHR ''c'', CHR 0x0A]\<rparr>],
      head := Some 0, tail := Some 1\<rparr>"

text \<open>The store \<open>fixed_pair\<close> after \<open>set_buffer_counters\<close> on its second buffer.\<close>

definition fixed_pair_counted :: store where
  "fixed_pair_counted = fixed_pair\<lparr>
      mem := [Some \<lparr>b_next = Some 1, b_prev = None, b_size = 3, timestamp = 0,
                    record_count = 0, byte_count = 3, data = ''AAA''\<rparr>,
              Some \<lparr>b_next = None, b_prev = Some 0, b_size = 4, timestamp = 0,
                    record_count = 1, byte_count = 7, data = ''ABBB''\<rparr>]\<rparr>"

section \<open>negotiate.c: the loops\<close>

lemma find_node_result:
  "find_node mb p i = Some j \<Longrightarrow> 0 \<le> i \<Longrightarrow> i \<le> n_nodes mb \<Longrightarrow>
     i \<le> j \<and> j \<le> n_nodes mb \<and> (j < n_nodes mb \<longrightarrow> (\<exists>x. node_at mb j = Some x \<and> pid x = p))"
proof (induction mb p i rule: find_node.induct)
  case (1 mb p i)
  note unfold = find_node.simps[of mb p i]
  show ?case
  proof (cases "i < n_nodes mb")
    case False
    with "1.prems" show ?thesis by (simp add: unfold)
  next
    case True
    note lt = this
    show ?thesis
    proof (cases "node_at mb i")
      case None
      with lt "1.prems" show ?thesis by (simp add: unfold)
    next
      case (Some x)
      show ?thesis
      proof (cases "pid x = p")
        case True
        with lt Some "1.prems" show ?thesis by (auto simp: unfold)
      next
        case False
        with lt Some "1.prems" have "find_node mb p (i + 1) = Some j" by (simp add: unfold)
        with "1.IH"[OF lt Some False] lt "1.prems" show ?thesis by force
      qed
    qed
  qed
qed

lemma lookup_sgsh_edge_from_codes:
  "lookup_sgsh_edge_from mb e i = Inr rc \<Longrightarrow> rc = OP_EXISTS \<or> rc = OP_CREATE"
proof (induction mb e i rule: lookup_sgsh_edge_from.induct)
  case (1 mb e i)
  then show ?case
    by (cases "i < n_edges mb"; cases "edge_at mb i")
       (auto simp: lookup_sgsh_edge_from.simps[of mb e i] split: if_splits)
qed

lemma lookup_after_store:
  assumes "edge_array mb = Within (edges_offset mb)"
      and "edges mb = take (nat n) es @ [e]" and "n_edges mb = n + 1"
      and "n \<le> int (length es)"
  shows "0 \<le> i \<Longrightarrow> i \<le> n \<Longrightarrow> lookup_sgsh_edge_from mb e i = Inr OP_EXISTS"
proof (induction "nat (n - i)" arbitrary: i)
  case 0
  then have "i = n" by simp
  with 0 assms show ?case
    by (simp add: nth_append edge_at_def lookup_sgsh_edge_from.simps[of mb e n])
next
  case (Suc k)
  then have lt: "i < n" by simp
  have "nat (n - (i + 1)) = k" using Suc(2) by simp
  from Suc(1)[of "i + 1"] this Suc(3-) lt
  have "lookup_sgsh_edge_from mb e (i + 1) = Inr OP_EXISTS"
    by simp
  with lt Suc(3-) assms show ?case
    by (simp add: edge_at_def lookup_sgsh_edge_from.simps[of mb e i])
qed

lemma dispatcher_loop_finds:
  "n \<noteq> 0 \<Longrightarrow> i \<le> oi \<Longrightarrow> oi \<le> INT_MAX \<Longrightarrow> dispatcher_loop n oi i = Some oi"
proof (induction "nat (oi - i)" arbitrary: i)
  case 0
  then show ?case by (subst dispatcher_loop.simps) simp
next
  case (Suc k)
  then have "dispatcher_loop n oi (i + 1) = Some oi" by simp
  with Suc show ?case by (subst dispatcher_loop.simps) simp
qed

lemma dispatcher_loop_zero: "dispatcher_loop 0 oi i = Some i"
  by (simp add: dispatcher_loop.simps[of 0 oi i])

lemma fill_sgsh_edge_direction:
  assumes "chosen_mb st = Some mb" and "fill_sgsh_edge e st = Inr (c, e')"
  shows "c = OP_SUCCESS
       \<and> (fd_direction (origin mb) = STDIN_FILENO \<longrightarrow>
            edge_to e' = index (origin mb) \<and> edge_from e' = index (self_dispatcher st))
       \<and> (fd_direction (origin mb) = STDOUT_FILENO \<longrightarrow>
            edge_from e' = index (origin mb) \<and> edge_to e' = index (self_dispatcher st))"
  using assms
  by (auto simp: fill_sgsh_edge_def STDIN_FILENO_def STDOUT_FILENO_def
           split: option.splits if_splits)

lemma chosen_mb_same: "chosen_mb st = Some mb \<Longrightarrow> st\<lparr>chosen_mb := Some mb\<rparr> = st"
  by (cases st) simp

section \<open>negotiate.c: inserting a node and an edge\<close>

text \<open>
  What a returning \<open>try_add_sgsh_edge\<close> has done: the block keeps its initiator, nodes,
  origin and state, and when the origin names a sender the edge that \<open>fill_sgsh_edge\<close>
  built from it is among the edges afterwards.
\<close>

lemma try_add_sgsh_edge_result:
  assumes "chosen_mb st = Some mb" and "try_add_sgsh_edge ok ne st = Inr (rc, st')"
  shows "\<exists>mb'. st' = st\<lparr>chosen_mb := Some mb'\<rparr>
           \<and> initiator_pid mb' = initiator_pid mb \<and> nodes mb' = nodes mb
           \<and> n_nodes mb' = n_nodes mb \<and> origin mb' = origin mb
           \<and> state_flag mb' = state_flag mb
           \<and> (\<forall>i x. node_at mb i = Some x \<longrightarrow> node_at mb' i = Some x)
           \<and> (if index (origin mb) < 0 then rc = OP_NOOP \<and> mb' = mb
              else (rc = OP_SUCCESS \<or> rc = OP_EXISTS)
                 \<and> (\<exists>e. fill_sgsh_edge ne st = Inr (OP_SUCCESS, e)
                        \<and> lookup_sgsh_edge e st' = Inr OP_EXISTS))"
proof (cases "index (origin mb) < 0")
  case True
  with assms show ?thesis by (simp add: try_add_sgsh_edge_def)
next
  case False
  then have nn: "0 \<le> index (origin mb)" by simp
  from assms nn obtain c e where f: "fill_sgsh_edge ne st = Inr (c, e)"
    by (auto simp: try_add_sgsh_edge_def split: sum.splits)
  then have c: "c = OP_SUCCESS" using fill_sgsh_edge_direction[OF assms(1)] by blast
  from assms nn f obtain lc where l: "lookup_sgsh_edge e st = Inr lc"
    by (auto simp: try_add_sgsh_edge_def split: sum.splits)
  then have lcs: "lc = OP_EXISTS \<or> lc = OP_CREATE"
    using assms(1) lookup_sgsh_edge_from_codes by (auto simp: lookup_sgsh_edge_def)
  show ?thesis
  proof (cases "lc = OP_CREATE")
    case False
    with lcs have "lc = OP_EXISTS" by simp
    with assms nn f l c have "rc = OP_EXISTS" "st' = st"
      by (auto simp: try_add_sgsh_edge_def)
    with assms(1) nn f l c \<open>lc = OP_EXISTS\<close> show ?thesis
      by (intro exI[of _ mb]) (simp add: chosen_mb_same)
  next
    case True
    define mb1 where "mb1 = mb\<lparr>total_size := total_size mb + sizeof_sgsh_edge,
                   node_array := Within (int sizeof_sgsh_negotiation),
                   edge_array := Within (int sizeof_sgsh_negotiation
                                         + n_nodes mb * int sizeof_sgsh_node)\<rparr>"
    from True assms nn f l have ok: "ok"
      by (auto simp: try_add_sgsh_edge_def realloc_mb_new_edge_def split: if_splits)
    from True assms nn f l ok obtain es where es: "edge_store mb1 (n_edges mb) e = Some es"
      by (auto simp: try_add_sgsh_edge_def realloc_mb_new_edge_def mb1_def
               split: if_splits option.splits)
    then have ptr: "edge_array mb1 = Within (edges_offset mb1)"
      and rng: "0 \<le> n_edges mb" "n_edges mb \<le> int (length (edges mb))"
      and esv: "es = take (nat (n_edges mb)) (edges mb) @ [e]"
      by (auto simp: edge_store_def array_store_def mb1_def split: if_splits)
    define mb2 where "mb2 = mb1\<lparr>edges := es, n_edges := n_edges mb + 1,
                                 serial_no := serial_no mb + 1\<rparr>"
    from True assms nn f l ok es
    have st': "rc = OP_SUCCESS" "st' = st\<lparr>chosen_mb := Some mb2\<rparr>"
      by (auto simp: try_add_sgsh_edge_def realloc_mb_new_edge_def mb1_def mb2_def
               split: if_splits)
    have p2: "edge_array mb2 = Within (edges_offset mb2)"
      using ptr by (simp add: mb2_def edges_offset_def)
    have "lookup_sgsh_edge_from mb2 e 0 = Inr OP_EXISTS"
      using lookup_after_store[OF p2, of "n_edges mb" "edges mb" e 0] rng esv
      by (simp add: mb2_def)
    then have "lookup_sgsh_edge e st' = Inr OP_EXISTS"
      by (simp add: st' lookup_sgsh_edge_def)
    moreover have "\<forall>i x. node_at mb i = Some x \<longrightarrow> node_at mb2 i = Some x"
      by (auto simp: node_at_def mb2_def mb1_def split: if_splits)
    ultimately show ?thesis
      using st' nn f c by (intro exI[of _ mb2]) (simp add: mb2_def mb1_def)
  qed
qed

text \<open>
  What a returning \<open>try_add_sgsh_node\<close> has done: the node of this tool is in the block
  at the index that \<open>self_dispatcher\<close> now holds.
\<close>

lemma try_add_sgsh_node_result:
  assumes "chosen_mb st = Some mb" and "0 \<le> n_nodes mb"
      and "try_add_sgsh_node ok st = Inr (rc, st')"
  shows "\<exists>mb' i. st' = st\<lparr>self_dispatcher := (self_dispatcher st)\<lparr>index := i\<rparr>,
                           chosen_mb := Some mb'\<rparr>
           \<and> initiator_pid mb' = initiator_pid mb \<and> origin mb' = origin mb
           \<and> state_flag mb' = state_flag mb
           \<and> 0 \<le> i \<and> i < n_nodes mb'
           \<and> (\<exists>x. node_at mb' i = Some x \<and> pid x = pid (self_node st))
           \<and> (rc = OP_SUCCESS \<or> rc = OP_EXISTS)"
proof -
  from assms obtain j where fj: "find_node mb (pid (self_node st)) 0 = Some j"
    by (auto simp: try_add_sgsh_node_def split: option.splits)
  from find_node_result[OF fj] assms(2)
  have j: "0 \<le> j" "j \<le> n_nodes mb"
          "j < n_nodes mb \<longrightarrow> (\<exists>x. node_at mb j = Some x \<and> pid x = pid (self_node st))"
    by auto
  show ?thesis
  proof (cases "j = n_nodes mb")
    case False
    with j have lt: "j < n_nodes mb" by simp
    from assms fj False have r: "rc = OP_EXISTS"
        "st' = st\<lparr>self_dispatcher := (self_dispatcher st)\<lparr>index := j\<rparr>\<rparr>"
      by (auto simp: try_add_sgsh_node_def)
    have "st' = st\<lparr>self_dispatcher := (self_dispatcher st)\<lparr>index := j\<rparr>, chosen_mb := Some mb\<rparr>"
      using r(2) assms(1) by (cases st) simp
    with r(1) j lt show ?thesis
      by (intro exI[of _ mb] exI[of _ j]) simp
  next
    case True
    from assms fj True obtain es where ce: "copy_edges mb = Some es" and ok: "ok"
      by (auto simp: try_add_sgsh_node_def realloc_mb_new_node_def
               split: if_splits option.splits)
    define mb1 where "mb1 = mb\<lparr>total_size := total_size mb + sizeof_sgsh_node,
                   node_array := Within (int sizeof_sgsh_negotiation),
                   edge_array := Within (int sizeof_sgsh_negotiation
                                         + (n_nodes mb + 1) * int sizeof_sgsh_node),
                   edges := es\<rparr>"
    from assms fj True ce ok obtain ns where ns: "node_store mb1 (n_nodes mb) (self_node st) = Some ns"
      by (auto simp: try_add_sgsh_node_def realloc_mb_new_node_def mb1_def
               split: if_splits option.splits)
    then have rng: "n_nodes mb \<le> int (length (nodes mb))"
      and nsv: "ns = take (nat (n_nodes mb)) (nodes mb) @ [self_node st]"
      by (auto simp: node_store_def array_store_def mb1_def split: if_splits)
    define mb2 where "mb2 = mb1\<lparr>nodes := ns, n_nodes := n_nodes mb + 1,
                                 serial_no := serial_no mb + 1\<rparr>"
    from assms fj True ce ok ns
    have r: "rc = OP_SUCCESS"
      "st' = st\<lparr>self_dispatcher := (self_dispatcher st)\<lparr>index := n_nodes mb\<rparr>,
                chosen_mb := Some mb2\<rparr>"
      by (auto simp: try_add_sgsh_node_def realloc_mb_new_node_def mb1_def mb2_def
               split: if_splits)
    have "node_at mb2 (n_nodes mb) = Some (self_node st)"
      using rng assms(2) by (simp add: node_at_def mb2_def mb1_def nsv nth_append)
    with r assms(2) show ?thesis
      by (intro exI[of _ mb2] exI[of _ "n_nodes mb"]) (simp add: mb2_def mb1_def)
  qed
qed

lemma try_add_sgsh_edge_incident:
  assumes "chosen_mb st = Some mb" and "try_add_sgsh_edge ok ne st = Inr (rc, st')"
  shows "\<exists>mb'. st' = st\<lparr>chosen_mb := Some mb'\<rparr>
           \<and> initiator_pid mb' = initiator_pid mb \<and> nodes mb' = nodes mb
           \<and> n_nodes mb' = n_nodes mb \<and> rc \<noteq> OP_ERROR
           \<and> (0 \<le> index (origin mb) \<longrightarrow>
                (\<exists>e. implied_edge (origin mb) (index (self_dispatcher st)) e
                     \<and> lookup_sgsh_edge e st' = Inr OP_EXISTS))"
proof -
  from try_add_sgsh_edge_result[OF assms] obtain mb' where
    m: "st' = st\<lparr>chosen_mb := Some mb'\<rparr>" "initiator_pid mb' = initiator_pid mb"
       "nodes mb' = nodes mb" "n_nodes mb' = n_nodes mb"
    and c: "if index (origin mb) < 0 then rc = OP_NOOP \<and> mb' = mb
              else (rc = OP_SUCCESS \<or> rc = OP_EXISTS)
                 \<and> (\<exists>e. fill_sgsh_edge ne st = Inr (OP_SUCCESS, e)
                        \<and> lookup_sgsh_edge e st' = Inr OP_EXISTS)"
    by blast
  have rc: "rc \<noteq> OP_ERROR" using c by (auto split: if_splits)
  have e: "\<exists>e. implied_edge (origin mb) (index (self_dispatcher st)) e
                     \<and> lookup_sgsh_edge e st' = Inr OP_EXISTS" if "0 \<le> index (origin mb)"
  proof -
    from c that obtain e where f: "fill_sgsh_edge ne st = Inr (OP_SUCCESS, e)"
      and l: "lookup_sgsh_edge e st' = Inr OP_EXISTS" by auto
    from fill_sgsh_edge_direction[OF assms(1) f]
    have "implied_edge (origin mb) (index (self_dispatcher st)) e"
      by (simp add: implied_edge_def)
    with l show ?thesis by blast
  qed
  from m rc e show ?thesis by blast
qed

section \<open>negotiate.c: message competition\<close>

text \<open>
  What a returning \<open>compete_message_block\<close> has done, holding \<open>chosen\<close> and receiving
  \<open>fresh\<close>. A fresh block with the lower initiator pid is adopted: the chosen block is
  freed, this tool's node is in the fresh block at the index recorded in
  \<open>self_dispatcher\<close>, the edge to the sender named by the fresh block's origin is among
  its edges, and both \<open>should_transmit_mb\<close> and \<open>updated_mb_serial_no\<close> are 1. A fresh
  block with the higher initiator pid is freed, nothing else changes, and
  \<open>should_transmit_mb\<close> is 0. With equal initiator pids the block with the higher serial
  number is kept and the other freed, and \<open>try_add_sgsh_edge\<close> runs on the block that
  was kept, with the origin that block has.
\<close>

lemma compete_message_block_returns:
  assumes "chosen_mb st = Some chosen"
  shows "(initiator_pid fresh < initiator_pid chosen \<and> 0 \<le> n_nodes fresh
          \<and> compete_message_block nok eok ne (Some fresh) st = Inr (rc, st', tr, up) \<longrightarrow>
            rc = OP_SUCCESS \<and> tr = 1 \<and> up = 1 \<and> freed st' = freed st @ [chosen]
            \<and> (\<exists>mb'. chosen_mb st' = Some mb' \<and> initiator_pid mb' = initiator_pid fresh
                  \<and> 0 \<le> index (self_dispatcher st')
                  \<and> index (self_dispatcher st') < n_nodes mb'
                  \<and> (\<exists>x. node_at mb' (index (self_dispatcher st')) = Some x
                          \<and> pid x = pid (self_node st))
                  \<and> (0 \<le> index (origin fresh) \<longrightarrow>
                       (\<exists>e. implied_edge (origin fresh) (index (self_dispatcher st')) e
                            \<and> lookup_sgsh_edge e st' = Inr OP_EXISTS))))
       \<and> (initiator_pid chosen < initiator_pid fresh \<longrightarrow>
            compete_message_block nok eok ne (Some fresh) st
              = Inr (OP_SUCCESS, st\<lparr>freed := freed st @ [fresh]\<rparr>, 0, 0))
       \<and> (initiator_pid fresh = initiator_pid chosen \<longrightarrow>
            compete_message_block nok eok ne (Some fresh) st
              = (case try_add_sgsh_edge eok ne
                        (if serial_no chosen < serial_no fresh
                         then st\<lparr>freed := freed st @ [chosen], chosen_mb := Some fresh\<rparr>
                         else st\<lparr>freed := freed st @ [fresh]\<rparr>) of
                   Inl f \<Rightarrow> Inl f
                 | Inr (c, st2) \<Rightarrow>
                     Inr (OP_SUCCESS, st2, 1, if serial_no chosen < serial_no fresh then 1 else 0)))"
proof (intro conjI impI)
  assume "initiator_pid chosen < initiator_pid fresh"
  then show "compete_message_block nok eok ne (Some fresh) st
              = Inr (OP_SUCCESS, st\<lparr>freed := freed st @ [fresh]\<rparr>, 0, 0)"
    using assms by (simp add: compete_message_block_def)
next
  assume h: "initiator_pid fresh < initiator_pid chosen \<and> 0 \<le> n_nodes fresh
          \<and> compete_message_block nok eok ne (Some fresh) st = Inr (rc, st', tr, up)"
  define st0 where "st0 = st\<lparr>freed := freed st @ [chosen], chosen_mb := Some fresh\<rparr>"
  have c0: "chosen_mb st0 = Some fresh" by (simp add: st0_def)
  from h assms obtain rc1 st1 where n: "try_add_sgsh_node nok st0 = Inr (rc1, st1)"
    by (auto simp: compete_message_block_def st0_def split: sum.splits)
  from try_add_sgsh_node_result[OF c0 _ n] h obtain mb1 i where
    m1: "st1 = st0\<lparr>self_dispatcher := (self_dispatcher st0)\<lparr>index := i\<rparr>, chosen_mb := Some mb1\<rparr>"
        "initiator_pid mb1 = initiator_pid fresh" "origin mb1 = origin fresh"
        "0 \<le> i" "i < n_nodes mb1" "\<exists>x. node_at mb1 i = Some x \<and> pid x = pid (self_node st0)"
        "rc1 = OP_SUCCESS \<or> rc1 = OP_EXISTS"
    by blast
  have c1: "chosen_mb st1 = Some mb1" by (simp add: m1(1))
  from h assms n m1(7) obtain rc2 st2 where e: "try_add_sgsh_edge eok ne st1 = Inr (rc2, st2)"
    by (auto simp: compete_message_block_def st0_def split: sum.splits)
  from try_add_sgsh_edge_result[OF c1 e] obtain mb2 where
    m2: "st2 = st1\<lparr>chosen_mb := Some mb2\<rparr>" "initiator_pid mb2 = initiator_pid mb1"
        "nodes mb2 = nodes mb1" "n_nodes mb2 = n_nodes mb1"
        "\<forall>i x. node_at mb1 i = Some x \<longrightarrow> node_at mb2 i = Some x"
    by blast
  from try_add_sgsh_edge_incident[OF c1 e] m2(1) have
    m3: "rc2 \<noteq> OP_ERROR"
        "0 \<le> index (origin mb1) \<longrightarrow>
                (\<exists>e. implied_edge (origin mb1) (index (self_dispatcher st1)) e
                     \<and> lookup_sgsh_edge e st2 = Inr OP_EXISTS)"
    by blast+
  from m1(6) obtain x where x: "node_at mb1 i = Some x" "pid x = pid (self_node st0)" by blast
  with m2(5) have x2: "node_at mb2 i = Some x" by blast
  from h assms n e m1(7) m3(1) have r: "rc = OP_SUCCESS" "st' = st2" "tr = 1" "up = 1"
    by (auto simp: compete_message_block_def st0_def split: op_code.splits)
  show "rc = OP_SUCCESS" by (rule r)
  show "tr = 1" by (rule r)
  show "up = 1" by (rule r)
  show "freed st' = freed st @ [chosen]" by (simp add: r m2 m1 st0_def)
  show "\<exists>mb'. chosen_mb st' = Some mb' \<and> initiator_pid mb' = initiator_pid fresh
                  \<and> 0 \<le> index (self_dispatcher st')
                  \<and> index (self_dispatcher st') < n_nodes mb'
                  \<and> (\<exists>x. node_at mb' (index (self_dispatcher st')) = Some x
                          \<and> pid x = pid (self_node st))
                  \<and> (0 \<le> index (origin fresh) \<longrightarrow>
                       (\<exists>e. implied_edge (origin fresh) (index (self_dispatcher st')) e
                            \<and> lookup_sgsh_edge e st' = Inr OP_EXISTS))"
    using m1 m2 m3 x x2 by (intro exI[of _ mb2]) (simp add: r st0_def)
next
  assume h: "initiator_pid fresh = initiator_pid chosen"
  show "compete_message_block nok eok ne (Some fresh) st
              = (case try_add_sgsh_edge eok ne
                        (if serial_no chosen < serial_no fresh
                         then st\<lparr>freed := freed st @ [chosen], chosen_mb := Some fresh\<rparr>
                         else st\<lparr>freed := freed st @ [fresh]\<rparr>) of
                   Inl f \<Rightarrow> Inl f
                 | Inr (c, st2) \<Rightarrow>
                     Inr (OP_SUCCESS, st2, 1, if serial_no chosen < serial_no fresh then 1 else 0))"
  proof (cases "serial_no chosen < serial_no fresh")
    case True
    define st1 where "st1 = st\<lparr>freed := freed st @ [chosen], chosen_mb := Some fresh\<rparr>"
    have c1: "chosen_mb st1 = Some fresh" by (simp add: st1_def)
    show ?thesis
    proof (cases "try_add_sgsh_edge eok ne st1")
      case (Inl f)
      with h True assms show ?thesis by (simp add: compete_message_block_def st1_def)
    next
      case (Inr r)
      obtain c st2 where r: "r = (c, st2)" by (cases r)
      from try_add_sgsh_edge_incident[OF c1 Inr[unfolded r]] have "c \<noteq> OP_ERROR" by blast
      with h True assms Inr r show ?thesis
        by (cases c) (simp_all add: compete_message_block_def st1_def)
    qed
  next
    case False
    define st1 where "st1 = st\<lparr>freed := freed st @ [fresh]\<rparr>"
    have c1: "chosen_mb st1 = Some chosen" using assms by (simp add: st1_def)
    show ?thesis
    proof (cases "try_add_sgsh_edge eok ne st1")
      case (Inl f)
      with h False assms show ?thesis by (simp add: compete_message_block_def st1_def)
    next
      case (Inr r)
      obtain c st2 where r: "r = (c, st2)" by (cases r)
      from try_add_sgsh_edge_incident[OF c1 Inr[unfolded r]] have "c \<noteq> OP_ERROR" by blast
      with h False assms Inr r show ?thesis
        by (cases c) (simp_all add: compete_message_block_def st1_def)
    qed
  qed
qed

text \<open>
  The definitions that a run on a concrete block unfolds.
\<close>

lemmas eval_defs = compete_message_block_def try_add_sgsh_node_def try_add_sgsh_edge_def
  realloc_mb_new_node_def realloc_mb_new_edge_def fill_sgsh_edge_def lookup_sgsh_edge_def
  array_store_def node_store_def edge_store_def node_at_def edge_at_def edges_offset_def
  copy_edges_def relocated_def copied_address_def
  find_node.simps lookup_sgsh_edge_from.simps dispatcher_loop.simps

text \<open>
  The three cases on blocks whose arrays can be read: tool b, holding a block of
  initiator 150, adopts the block of initiator 100, adding itself and the edge from a;
  holding the block of initiator 100 it drops the block of initiator 150 and does not
  transmit; tool a, holding its own block with serial number 1, keeps the same block
  with serial number 3 instead.
\<close>

lemma compete_message_block_examples:
  "(\<exists>st'. compete_message_block True True \<lparr>edge_from = 7, edge_to = 7\<rparr> (Some (block_a 1))
             (holder tool_b 1 0 block_cb) = Inr (OP_SUCCESS, st', 1, 1)
          \<and> freed st' = [block_cb]
          \<and> (\<exists>mb'. chosen_mb st' = Some mb' \<and> initiator_pid mb' = 100
                \<and> index (self_dispatcher st') = 1 \<and> nodes mb' = [tool_a, tool_b]
                \<and> edges mb' = [\<lparr>edge_from = 0, edge_to = 1\<rparr>]))
   \<and> compete_message_block True True \<lparr>edge_from = 7, edge_to = 7\<rparr> (Some block_cb)
         (holder tool_b 1 0 (block_ab 3))
       = Inr (OP_SUCCESS, (holder tool_b 1 0 (block_ab 3))\<lparr>freed := [block_cb]\<rparr>, 0, 0)
   \<and> compete_message_block True True \<lparr>edge_from = 7, edge_to = 7\<rparr> (Some (block_ab 3))
         (holder tool_a 0 1 (block_a 1))
       = Inr (OP_SUCCESS, (holder tool_a 0 1 (block_ab 3))\<lparr>freed := [block_a 1]\<rparr>, 1, 1)"
  by (simp add: eval_defs example_defs)

text \<open>
  C1 when the block comes back unchanged. Tool b takes input only. It holds the block of
  the nodes a and b with the edge from a to b, as it arrived from a's output side, and
  sends it: \<open>write_mb\<close> stamps the block with b's own index and side. The same block,
  with the same serial number and a's stamp, then arrives again (its array pointers are
  those of the sender). \<open>compete_message_block\<close> frees the block that arrived and calls
  \<open>try_add_sgsh_edge\<close> on the block it holds, whose origin is b's own stamp:
  \<open>assert(self_node.sgsh_out)\<close> fails in \<open>fill_sgsh_edge\<close> and the process aborts. The
  edge that the arrived block implies is not attempted and nothing is transmitted. At
  tool d, which has both sides and is in the same situation, the call returns and has
  appended the edge from d to d.
\<close>

theorem compete_message_block_own_stamp:
  "write_mb None 4096
       (holder tool_b 1 0 ((block_ab 3)\<lparr>origin := \<lparr>index = 0, fd_direction = 1\<rparr>\<rparr>))
     = Inr (OP_SUCCESS, Some (block_ab 3),
            (holder tool_b 1 0 (block_ab 3))\<lparr>written := [(0, block_ab 3, 312)]\<rparr>)
   \<and> compete_message_block True True \<lparr>edge_from = 7, edge_to = 7\<rparr>
        (Some (relocated ((block_ab 3)\<lparr>origin := \<lparr>index = 0, fd_direction = 1\<rparr>\<rparr>)))
        ((holder tool_b 1 0 (block_ab 3))\<lparr>written := [(0, block_ab 3, 312)]\<rparr>)
     = Inl Abort
   \<and> (\<exists>st'. compete_message_block True True \<lparr>edge_from = 7, edge_to = 7\<rparr>
        (Some (relocated ((block_ad 3)\<lparr>origin := \<lparr>index = 0, fd_direction = 1\<rparr>\<rparr>)))
        (holder tool_d 1 0 (block_ad 3))
      = Inr (OP_SUCCESS, st', 1, 0)
      \<and> map_option edges (chosen_mb st')
          = Some [\<lparr>edge_from = 0, edge_to = 1\<rparr>, \<lparr>edge_from = 1, edge_to = 1\<rparr>])"
  by (simp add: eval_defs example_defs tool_d_def block_ad_def write_mb_def set_dispatcher_def
        size_t_of_int_def)

text \<open>
  A block that was read from another process holds that process's addresses in
  \<open>node_array\<close> and \<open>edge_array\<close>. When tool b, holding the block of initiator 150,
  adopts such a block of initiator 100, the search loop of \<open>try_add_sgsh_node\<close> reads
  through \<open>node_array\<close>; when the block it holds comes back with a higher serial
  number, \<open>lookup_sgsh_edge\<close> reads through \<open>edge_array\<close>.
\<close>

lemma compete_message_block_foreign_arrays:
  "compete_message_block True True \<lparr>edge_from = 7, edge_to = 7\<rparr>
        (Some (relocated (block_a 1))) (holder tool_b 1 0 block_cb) = Inl Undefined
   \<and> compete_message_block True True \<lparr>edge_from = 7, edge_to = 7\<rparr>
        (Some (relocated ((block_ab 4)\<lparr>origin := \<lparr>index = 0, fd_direction = 1\<rparr>\<rparr>)))
        (holder tool_b 1 0 (block_ab 3)) = Inl Undefined"
  by (simp add: eval_defs example_defs)

section \<open>negotiate.c: counting rounds\<close>




section \<open>negotiate.c: the origin check of fill_sgsh_edge\<close>

text \<open>
  C5 at a block of two nodes whose origin names node 5, received by tool b (index 1) from
  a sender's output side. \<open>fill_sgsh_edge\<close> reports no error: it returns \<open>OP_SUCCESS\<close>
  with the edge from node 5 to node 1, and \<open>try_add_sgsh_edge\<close> appends that edge.
\<close>

theorem fill_sgsh_edge_accepts_invalid_origin:
  "n_nodes ((block_ab 3)\<lparr>origin := \<lparr>index = 5, fd_direction = 1\<rparr>\<rparr>) = 2
   \<and> fill_sgsh_edge \<lparr>edge_from = 7, edge_to = 7\<rparr>
        (holder tool_b 1 0 ((block_ab 3)\<lparr>origin := \<lparr>index = 5, fd_direction = 1\<rparr>\<rparr>))
      = Inr (OP_SUCCESS, \<lparr>edge_from = 5, edge_to = 1\<rparr>)
   \<and> (\<exists>st'. try_add_sgsh_edge True \<lparr>edge_from = 7, edge_to = 7\<rparr>
        (holder tool_b 1 0 ((block_ab 3)\<lparr>origin := \<lparr>index = 5, fd_direction = 1\<rparr>\<rparr>))
      = Inr (OP_SUCCESS, st')
      \<and> map_option edges (chosen_mb st')
          = Some [\<lparr>edge_from = 0, edge_to = 1\<rparr>, \<lparr>edge_from = 5, edge_to = 1\<rparr>])"
  by (simp add: eval_defs example_defs)

section \<open>negotiate.c: the size of the block\<close>

text \<open>
  Inserting a node or an edge keeps the size equation and sets both array pointers: the
  nodes start behind the header and the edges behind the last node.
\<close>

lemma try_add_sgsh_node_layout:
  assumes "chosen_mb st = Some mb" and "mb_size_ok mb"
      and "try_add_sgsh_node ok st = Inr (rc, st')"
  shows "\<exists>mb'. chosen_mb st' = Some mb' \<and> mb_size_ok mb'
           \<and> (rc = OP_SUCCESS \<longrightarrow> n_nodes mb' = n_nodes mb + 1
                \<and> node_array mb' = Within (int sizeof_sgsh_negotiation)
                \<and> edge_array mb' = Within (int sizeof_sgsh_negotiation
                                          + n_nodes mb' * int sizeof_sgsh_node))"
  using assms
  by (auto simp: try_add_sgsh_node_def realloc_mb_new_node_def mb_size_ok_def algebra_simps
           split: option.splits if_splits)

lemma try_add_sgsh_edge_layout:
  assumes "chosen_mb st = Some mb" and "mb_size_ok mb"
      and "try_add_sgsh_edge ok ne st = Inr (rc, st')"
  shows "\<exists>mb'. chosen_mb st' = Some mb' \<and> mb_size_ok mb'
           \<and> (rc = OP_SUCCESS \<longrightarrow> n_edges mb' = n_edges mb + 1
                \<and> node_array mb' = Within (int sizeof_sgsh_negotiation)
                \<and> edge_array mb' = Within (int sizeof_sgsh_negotiation
                                          + n_nodes mb' * int sizeof_sgsh_node))"
  using assms
  by (auto simp: try_add_sgsh_edge_def realloc_mb_new_edge_def mb_size_ok_def algebra_simps
           split: option.splits if_splits sum.splits op_code.splits)

text \<open>
  C6 at creation. \<open>malloc\<close> returns a block whose \<open>n_edges\<close> field holds 5;
  \<open>construct_message_block\<close> does not assign the field, so the block it leaves has no
  node, 5 as its edge count and the header's size as \<open>total_size\<close>: the size equation
  does not hold.
\<close>

theorem construct_message_block_leaves_n_edges:
  "\<exists>st' mb'. construct_message_block (Some ((block_ab 9)\<lparr>n_edges := 5\<rparr>)) 100
          \<lparr>chosen_mb = None, self_node = tool_a,
           self_dispatcher = \<lparr>index = 0, fd_direction = 0\<rparr>, freed = [], written = []\<rparr>
        = Inr (OP_SUCCESS, st')
      \<and> chosen_mb st' = Some mb' \<and> n_nodes mb' = 0 \<and> n_edges mb' = 5
      \<and> total_size mb' = sizeof_sgsh_negotiation \<and> \<not> mb_size_ok mb'"
  by (simp add: construct_message_block_def mb_size_ok_def example_defs)

section \<open>negotiate.c: reading a block\<close>

text \<open>
  C8. Tool b waits for a block: \<open>sgsh_negotiate\<close> passes its null \<open>fresh_mb\<close>, and
  \<open>alloc_copy_mb\<close> reads \<open>total_size\<close> through it. Called with a pointer to a block of
  the right size, \<open>try_read_message_block\<close> succeeds and the caller's pointer still
  refers to the old block, not to the block that was read.
\<close>

theorem try_read_message_block_keeps_caller_pointer:
  "sgsh_negotiate_start ''b'' 1 0 (Some 1) (Some 0) 200 4096 None
       \<lparr>reads = [Read_bytes 184 (Some (block_a 1))], malloc_ok = True, node_ok = True,
        edge_ok = True, new_edge = \<lparr>edge_from = 7, edge_to = 7\<rparr>\<rparr>
       \<lparr>chosen_mb = None, self_node = tool_b,
        self_dispatcher = \<lparr>index = 0, fd_direction = 0\<rparr>, freed = [], written = []\<rparr>
     = Some (Inl Undefined)
   \<and> try_read_message_block None 4096 (Some block_cb) True
        [Read_bytes 312 (Some (block_ab 3))] (holder tool_b 1 0 block_cb)
     = Some (Inr (OP_SUCCESS, Some (block_ab 3), Some block_cb, holder tool_b 1 0 block_cb))"
  by (simp add: sgsh_negotiate_start_def try_read_message_block_def alloc_copy_mb_def
        call_read_def point_io_direction_def size_t_of_int_def EAGAIN_def example_defs)

section \<open>negotiate.c: a block larger than the transmit buffer\<close>

lemma check_negotiation_round_returns:
  assumes "chosen_mb st = Some mb" and "r < INT_MAX" and "serial_no mb < INT_MAX"
  shows "\<exists>r' st1 mb1. check_negotiation_round r u st = Inr (r', st1)
           \<and> chosen_mb st1 = Some mb1 \<and> total_size mb1 = total_size mb
           \<and> written st1 = written st"
  using assms by (simp add: check_negotiation_round_def)

text \<open>
  C10. When the chosen block is larger than the buffer, \<open>write_mb\<close> returns \<open>OP_ERROR\<close>
  and leaves the buffer and the state as they were: the origin is not stamped and nothing
  is written. In the loop of \<open>sgsh_negotiate\<close> an iteration that is to transmit then
  returns \<open>OP_ERROR\<close>, with nothing written.
\<close>

theorem write_mb_oversize:
  assumes "chosen_mb st = Some mb" and "size_t_of_int buf_size < total_size mb"
  shows "write_mb b buf_size st = Inr (OP_ERROR, b, st)
       \<and> (\<forall>ios v. state_flag mb = PROT_STATE_NEGOTIATION \<and> should_transmit_mb v \<noteq> 0
              \<and> negotiation_round v < INT_MAX \<and> serial_no mb < INT_MAX \<longrightarrow>
            (\<exists>v' st'. negotiation_loop buf_size ios v st = Some (Inr (Return_op OP_ERROR, v', st'))
               \<and> written st' = written st \<and> buf v' = buf v))"
proof -
  have w: "\<And>st1 mb1 b. chosen_mb st1 = Some mb1 \<Longrightarrow> total_size mb1 = total_size mb
              \<Longrightarrow> write_mb b buf_size st1 = Inr (OP_ERROR, b, st1)"
    using assms(2) by (simp add: write_mb_def)
  have first: "write_mb b buf_size st = Inr (OP_ERROR, b, st)"
    using w assms(1) by simp
  have loop: "\<exists>v' st'. negotiation_loop buf_size ios v st = Some (Inr (Return_op OP_ERROR, v', st'))
               \<and> written st' = written st \<and> buf v' = buf v"
    if h: "state_flag mb = PROT_STATE_NEGOTIATION" "should_transmit_mb v \<noteq> 0"
          "negotiation_round v < INT_MAX" "serial_no mb < INT_MAX" for ios v
  proof -
    obtain r st1 mb1 where c: "check_negotiation_round (negotiation_round v) (updated_mb_serial_no v) st = Inr (r, st1)"
      and s1: "chosen_mb st1 = Some mb1" "total_size mb1 = total_size mb" "written st1 = written st"
      using check_negotiation_round_returns[OF assms(1) h(3,4)] by blast
    have t: "transmit_round buf_size v st
               = Inr (Some (Return_op OP_ERROR), v\<lparr>negotiation_round := r\<rparr>, st1)"
      using assms(1) h(1,2) c w[OF s1(1,2)] by (simp add: transmit_round_def)
    show ?thesis
      using t s1(3) by (cases ios) simp_all
  qed
  show ?thesis using first loop by blast
qed

text \<open>Witness for C10: a block of 41 nodes, 4984 bytes, and a page of 4096 bytes.\<close>

theorem write_mb_oversize_witness:
  "write_mb None 4096
      (holder tool_a 0 1 ((block_a 1)\<lparr>n_nodes := 41, nodes := replicate 41 tool_a,
                                       total_size := 4984\<rparr>))
     = Inr (OP_ERROR, None,
         holder tool_a 0 1 ((block_a 1)\<lparr>n_nodes := 41, nodes := replicate 41 tool_a,
                                         total_size := 4984\<rparr>))
   \<and> (\<exists>v' st'. negotiation_loop 4096 []
         \<lparr>negotiation_round = 0, should_transmit_mb = 1, updated_mb_serial_no = 1,
          buf = None, fresh_mb = None\<rparr>
         (holder tool_a 0 1 ((block_a 1)\<lparr>n_nodes := 41, nodes := replicate 41 tool_a,
                                         total_size := 4984\<rparr>))
        = Some (Inr (Return_op OP_ERROR, v', st')) \<and> written st' = [])"
proof -
  let ?mb = "(block_a 1)\<lparr>n_nodes := 41, nodes := replicate 41 tool_a, total_size := 4984\<rparr>"
  let ?v = "\<lparr>negotiation_round = 0, should_transmit_mb = 1, updated_mb_serial_no = 1,
          buf = None, fresh_mb = None\<rparr>"
  have h: "chosen_mb (holder tool_a 0 1 ?mb) = Some ?mb" by (simp add: holder_def)
  have s: "size_t_of_int 4096 < total_size ?mb" by (simp add: size_t_of_int_def)
  have p: "state_flag ?mb = PROT_STATE_NEGOTIATION \<and> should_transmit_mb ?v \<noteq> 0
              \<and> negotiation_round ?v < INT_MAX \<and> serial_no ?mb < INT_MAX"
    by (simp add: example_defs)
  have w: "written (holder tool_a 0 1 ?mb) = []" by (simp add: holder_def)
  from write_mb_oversize[OF h s, of None] p w show ?thesis
    by (metis (no_types, lifting))
qed

section \<open>sgsh-writeval.c: the memory and the queue\<close>

lemma buffer_at_store_buffer:
  "buffer_at (store_buffer m a x) b
     = (if b = a \<and> a < length m then Some x else buffer_at m b)"
  by (auto simp: buffer_at_def store_buffer_def)



lemma queue_unique: "queue m p as \<Longrightarrow> queue m p bs \<Longrightarrow> as = bs"
proof (induction as arbitrary: p bs)
  case Nil
  then show ?case by (cases bs) simp_all
next
  case (Cons a as)
  then show ?case by (cases bs) (auto split: option.splits)
qed

lemma queue_append: "queue m p (xs @ ys) \<Longrightarrow> \<exists>q. queue m q ys"
  by (induction xs arbitrary: p) (auto split: option.splits)

lemma queue_distinct: "queue m p as \<Longrightarrow> distinct as"
proof (induction as arbitrary: p)
  case Nil
  then show ?case by simp
next
  case (Cons a as)
  from Cons.prems obtain x where x: "buffer_at m a = Some x" and q: "queue m (b_next x) as"
    by (auto split: option.splits)
  have "a \<notin> set as"
  proof
    assume "a \<in> set as"
    then obtain xs ys where s: "as = xs @ a # ys" by (meson split_list)
    with q obtain r where "queue m r (a # ys)" using queue_append by blast
    then have "queue m (b_next x) ys" using x by (auto split: option.splits)
    with q have "as = ys" by (rule queue_unique)
    with s show False by simp
  qed
  with Cons.IH[OF q] show ?case by simp
qed



section \<open>sgsh-writeval.c: trimming the queue\<close>



lemma at_or_after_refl: "y \<in> set as \<Longrightarrow> at_or_after as y y"
  unfolding at_or_after_def
  by (induction as) auto

lemma at_or_after_trans:
  "distinct as \<Longrightarrow> at_or_after as y x \<Longrightarrow> at_or_after as x z \<Longrightarrow> at_or_after as y z"
  unfolding at_or_after_def
proof (induction as)
  case Nil
  then show ?case by simp
next
  case (Cons a as)
  show ?case
  proof (cases "a = y")
    case True
    have "z \<in> set (a # as)" using Cons.prems(3) by (meson set_dropWhileD)
    with True show ?thesis by simp
  next
    case False
    with Cons.prems(2) have x: "x \<in> set (dropWhile (\<lambda>a. a \<noteq> y) as)" by simp
    then have "x \<in> set as" by (meson set_dropWhileD)
    with Cons.prems(1) have "a \<noteq> x" by auto
    with Cons.prems(3) have "z \<in> set (dropWhile (\<lambda>a. a \<noteq> x) as)" by simp
    with Cons.IH x False Cons.prems(1) show ?thesis by simp
  qed
qed




text \<open>
  \<open>update_oldest_buffer\<close> sets \<open>oldest_buffer_being_written\<close> so that the begin cursor
  of every sending client is at or after it, which is one half of what the trim needs.
\<close>

lemma oldest_buffer_from_first:
  assumes "queue m (Some p) as" and "a \<in> set as \<or> b \<in> set as"
  shows "oldest_buffer_from m a b p = Some (Inr (hd (dropWhile (\<lambda>x. x \<noteq> a \<and> x \<noteq> b) as)))"
  using assms
proof (induction as arbitrary: p)
  case Nil
  then show ?case by simp
next
  case (Cons c as)
  from Cons.prems(1) obtain x where p: "p = c" and x: "buffer_at m c = Some x"
    and q: "queue m (b_next x) as"
    by (auto split: option.splits)
  show ?case
  proof (cases "c = a \<or> c = b")
    case True
    then show ?thesis using p by (subst oldest_buffer_from.simps) auto
  next
    case False
    with Cons.prems(2) have ex: "a \<in> set as \<or> b \<in> set as" by auto
    then obtain n as' where as: "as = n # as'" by (cases as) auto
    with q have nx: "b_next x = Some n" by simp
    from Cons.IH[of n] q ex nx
    have "oldest_buffer_from m a b n = Some (Inr (hd (dropWhile (\<lambda>x. x \<noteq> a \<and> x \<noteq> b) as)))"
      by simp
    with False p x nx show ?thesis by (subst oldest_buffer_from.simps) auto
  qed
qed

lemma first_of_two:
  assumes "distinct as" and "a \<in> set as \<or> b \<in> set as"
  shows "hd (dropWhile (\<lambda>x. x \<noteq> a \<and> x \<noteq> b) as) \<in> {a, b}
       \<and> hd (dropWhile (\<lambda>x. x \<noteq> a \<and> x \<noteq> b) as) \<in> set as
       \<and> (a \<in> set as \<longrightarrow> at_or_after as (hd (dropWhile (\<lambda>x. x \<noteq> a \<and> x \<noteq> b) as)) a)
       \<and> (b \<in> set as \<longrightarrow> at_or_after as (hd (dropWhile (\<lambda>x. x \<noteq> a \<and> x \<noteq> b) as)) b)"
  using assms
proof (induction as)
  case Nil
  then show ?case by simp
next
  case (Cons c as)
  show ?case
  proof (cases "c = a \<or> c = b")
    case True
    then show ?thesis by (auto simp: at_or_after_def)
  next
    case False
    with Cons show ?thesis by (auto simp: at_or_after_def)
  qed
qed

lemma oldest_buffer_first:
  assumes "queue m q_head as" and "a \<in> set as" and "b \<in> set as"
  shows "\<exists>f. oldest_buffer m q_head (Some a) (Some b) = Inr (Some f)
           \<and> f \<in> set as \<and> at_or_after as f a \<and> at_or_after as f b"
proof -
  from assms(1,2) obtain p where p: "q_head = Some p" by (cases as) auto
  have d: "distinct as" using assms(1) by (rule queue_distinct)
  from oldest_buffer_from_first[of m p as a b] assms p
  have "oldest_buffer_from m a b p = Some (Inr (hd (dropWhile (\<lambda>x. x \<noteq> a \<and> x \<noteq> b) as)))"
    by simp
  then have "oldest_buffer m q_head (Some a) (Some b)
               = Inr (Some (hd (dropWhile (\<lambda>x. x \<noteq> a \<and> x \<noteq> b) as)))"
    using p by (simp add: oldest_buffer_def returned_def)
  with first_of_two[OF d, of a b] assms(2,3) show ?thesis by simp
qed

lemma oldest_of_clients_covers:
  assumes "queue m q_head as"
      and "\<forall>c \<in> set cs. state c = s_sending_response \<longrightarrow>
             (\<exists>wb. dp_b (write_begin c) = Some wb \<and> wb \<in> set as)"
      and "\<forall>old. acc = Some old \<longrightarrow> old \<in> set as"
  shows "\<exists>r. oldest_of_clients m q_head cs acc = Inr r
           \<and> (\<forall>old. acc = Some old \<longrightarrow> (\<exists>f. r = Some f \<and> at_or_after as f old))
           \<and> (\<forall>f. r = Some f \<longrightarrow> f \<in> set as)
           \<and> (\<forall>c \<in> set cs. state c = s_sending_response \<longrightarrow>
                 (\<exists>f wb. r = Some f \<and> dp_b (write_begin c) = Some wb \<and> at_or_after as f wb))"
  using assms(2,3)
proof (induction cs arbitrary: acc)
  case Nil
  then show ?case by (auto intro: at_or_after_refl)
next
  case (Cons c cs)
  have d: "distinct as" using assms(1) by (rule queue_distinct)
  show ?case
  proof (cases "state c = s_sending_response")
    case False
    with Cons.IH[of acc] Cons.prems show ?thesis by auto
  next
    case True
    with Cons.prems(1) obtain wb where wb: "dp_b (write_begin c) = Some wb" "wb \<in> set as"
      by auto
    show ?thesis
    proof (cases acc)
      case None
      then have o: "oldest_buffer m q_head acc (dp_b (write_begin c)) = Inr (Some wb)"
        using wb by (simp add: oldest_buffer_def)
      from Cons.IH[of "Some wb"] Cons.prems(1) wb obtain r where
        r: "oldest_of_clients m q_head cs (Some wb) = Inr r"
           "\<exists>f. r = Some f \<and> at_or_after as f wb"
           "\<forall>f. r = Some f \<longrightarrow> f \<in> set as"
           "\<forall>c \<in> set cs. state c = s_sending_response \<longrightarrow>
                 (\<exists>f wb. r = Some f \<and> dp_b (write_begin c) = Some wb \<and> at_or_after as f wb)"
        by auto
      with True o None wb show ?thesis by auto
    next
      case (Some old)
      with Cons.prems(2) have old: "old \<in> set as" by simp
      from oldest_buffer_first[OF assms(1) old wb(2)] obtain f where
        f: "oldest_buffer m q_head (Some old) (Some wb) = Inr (Some f)" "f \<in> set as"
           "at_or_after as f old" "at_or_after as f wb"
        by blast
      from Cons.IH[of "Some f"] Cons.prems(1) f(2) obtain r where
        r: "oldest_of_clients m q_head cs (Some f) = Inr r"
           "\<exists>g. r = Some g \<and> at_or_after as g f"
           "\<forall>g. r = Some g \<longrightarrow> g \<in> set as"
           "\<forall>c \<in> set cs. state c = s_sending_response \<longrightarrow>
                 (\<exists>g wb. r = Some g \<and> dp_b (write_begin c) = Some wb \<and> at_or_after as g wb)"
        by auto
      from r(2) obtain g where g: "r = Some g" "at_or_after as g f" by blast
      have "at_or_after as g old" "at_or_after as g wb"
        using at_or_after_trans[OF d g(2)] f(3,4) by blast+
      with True Some wb f(1) r g show ?thesis by auto
    qed
  qed
qed

lemma update_oldest_buffer_covers:
  assumes "queue (mem st) (head st) as"
      and "\<forall>c \<in> set (clients st). state c = s_sending_response \<longrightarrow>
             (\<exists>wb. dp_b (write_begin c) = Some wb \<and> wb \<in> set as)"
  shows "\<exists>st'. update_oldest_buffer st = Inr st'
           \<and> st' = st\<lparr>oldest_buffer_being_written := oldest_buffer_being_written st'\<rparr>
           \<and> (\<forall>c \<in> set (clients st'). state c = s_sending_response \<longrightarrow>
                 (\<exists>old wb. oldest_buffer_being_written st' = Some old
                    \<and> dp_b (write_begin c) = Some wb \<and> at_or_after as old wb))"
proof -
  from oldest_of_clients_covers[OF assms(1), of "clients st" None] assms(2) obtain r where
    "oldest_of_clients (mem st) (head st) (clients st) None = Inr r"
    "\<forall>c \<in> set (clients st). state c = s_sending_response \<longrightarrow>
                 (\<exists>f wb. r = Some f \<and> dp_b (write_begin c) = Some wb \<and> at_or_after as f wb)"
    by auto
  then show ?thesis by (simp add: update_oldest_buffer_def)
qed

section \<open>sgsh-writeval.c: the counters of a buffer\<close>

lemma c_div_mono:
  assumes "0 < d" and "a \<le> a'"
  shows "c_div a d \<le> c_div a' d"
proof -
  have pos: "c_div x d = x div d" if "0 \<le> x" for x
    using that assms(1) by (cases "x = 0") (simp_all add: c_div_def sgn_if)
  have neg: "c_div x d = - ((- x) div d)" if "x < 0" for x
    using that assms(1) by (simp add: c_div_def sgn_if)
  consider "0 \<le> a" | "a < 0" "0 \<le> a'" | "a' < 0" using assms(2) by linarith
  then show ?thesis
  proof cases
    case 1
    then have "0 \<le> a'" using assms(2) by simp
    with 1 show ?thesis using assms by (simp add: pos zdiv_mono1)
  next
    case 2
    have "0 \<le> (- a) div d" using 2 assms(1) by (simp add: pos_imp_zdiv_nonneg_iff)
    moreover have "0 \<le> a' div d" using 2 assms(1) by (simp add: pos_imp_zdiv_nonneg_iff)
    ultimately show ?thesis using 2 by (simp add: pos neg)
  next
    case 3
    then have "a < 0" using assms(2) by simp
    have "(- a') div d \<le> (- a) div d" using assms by (simp add: zdiv_mono1)
    with 3 \<open>a < 0\<close> show ?thesis by (simp add: neg)
  qed
qed

lemma c_div_range:
  assumes "0 < d" and "LLONG_MIN \<le> a" and "a \<le> LLONG_MAX"
  shows "LLONG_MIN \<le> c_div a d \<and> c_div a d \<le> LLONG_MAX"
proof (cases "0 \<le> a")
  case True
  then have "c_div a d = a div d"
    using assms(1) by (cases "a = 0") (simp_all add: c_div_def sgn_if)
  moreover have "0 \<le> a div d" using True assms(1) by (simp add: pos_imp_zdiv_nonneg_iff)
  moreover have "a div d \<le> a" using zdiv_mono2[of a 1 d] True assms(1) by simp
  ultimately show ?thesis using assms(3) by (simp add: LLONG_MIN_def)
next
  case False
  then have neg: "c_div a d = - ((- a) div d)"
    using assms(1) by (simp add: c_div_def sgn_if)
  have "0 \<le> (- a) div d" using False assms(1) by (simp add: pos_imp_zdiv_nonneg_iff)
  moreover have "(- a) div d \<le> - a" using zdiv_mono2[of "- a" 1 d] False assms(1) by simp
  ultimately show ?thesis using assms(2) neg by (simp add: LLONG_MAX_def)
qed

text \<open>
  The first buffer of the queue: its counters start from 0, and with a record length
  its \<open>record_count\<close> is the quotient of its \<open>byte_count\<close>.
\<close>

lemma set_buffer_counters_first:
  assumes "buffer_at (mem st) a = Some x" and "b_prev x = None"
      and "0 \<le> b_size x" and "b_size x \<le> int (length (data x))"
      and "b_size x \<le> INT_MAX" and "0 \<le> rl st"
  shows "\<exists>st' x'. set_buffer_counters now a st = Inr st'
           \<and> buffer_at (mem st') a = Some x'
           \<and> 0 \<le> record_count x' \<and> record_count x' \<le> b_size x
           \<and> (rl st \<noteq> 0 \<longrightarrow> byte_count x' = b_size x
                 \<and> record_count x' = c_div (byte_count x') (rl st))"
proof -
  have a: "a < length (mem st)"
    using assms(1) by (auto simp: buffer_at_def split: if_splits)
  show ?thesis
  proof (cases "rl st = 0")
    case True
    define k where "k = int (length (filter (\<lambda>c. c = rs st) (take (nat (b_size x)) (data x))))"
    have "k \<le> int (length (take (nat (b_size x)) (data x)))"
      unfolding k_def by (simp only: zle_int length_filter_le)
    moreover have "int (length (take (nat (b_size x)) (data x))) = b_size x"
      using assms(3,4) by simp
    moreover have "0 \<le> k" by (simp add: k_def)
    ultimately have k: "0 \<le> k" "k \<le> b_size x" by simp_all
    then have "long_long k = Some k"
      using assms(5) by (simp add: long_long_def LLONG_MIN_def LLONG_MAX_def INT_MAX_def)
    with True assms a k show ?thesis
      by (simp add: set_buffer_counters_def Let_def k_def[symmetric] buffer_at_store_buffer)
  next
    case False
    then have pos: "0 < rl st" using assms(6) by simp
    have r: "LLONG_MIN \<le> b_size x" "b_size x \<le> LLONG_MAX"
      using assms(3,5) by (simp_all add: LLONG_MIN_def LLONG_MAX_def INT_MAX_def)
    then have ll: "long_long (b_size x) = Some (b_size x)" by (simp add: long_long_def)
    from c_div_range[OF pos r]
    have lr: "long_long (c_div (b_size x) (rl st)) = Some (c_div (b_size x) (rl st))"
      by (simp add: long_long_def)
    have q: "c_div (b_size x) (rl st) = b_size x div rl st"
      using assms(3) pos by (cases "b_size x = 0") (simp_all add: c_div_def sgn_if)
    have "0 \<le> b_size x div rl st" using assms(3) pos by (simp add: pos_imp_zdiv_nonneg_iff)
    moreover have "b_size x div rl st \<le> b_size x"
      using zdiv_mono2[of "b_size x" 1 "rl st"] assms(3) pos by simp
    ultimately show ?thesis
      using False assms a ll lr q
      by (simp add: set_buffer_counters_def Let_def buffer_at_store_buffer)
  qed
qed

text \<open>
  C9, as the code has it. \<open>set_buffer_counters\<close> runs on a buffer \<open>x\<close> appended behind
  \<open>y\<close>. With a record separator it gives \<open>x\<close> the \<open>record_count\<close> of \<open>y\<close> plus the
  number of separators in \<open>x\<close>, which is at least that of \<open>y\<close>, and does not assign
  \<open>byte_count\<close>: it stays what \<open>malloc\<close> left in the buffer. With a record length it
  gives \<open>x\<close> the \<open>byte_count\<close> of \<open>y\<close> plus the size of \<open>x\<close>, and as \<open>record_count\<close>
  the quotient of that by the record length; both are at least those of \<open>y\<close>. In both
  modes \<open>y\<close> is left alone. This holds as long as the new counter fits a \<open>long long\<close>;
  when it does not, the addition overflows and the call has no defined result.
\<close>

theorem set_buffer_counters_monotone:
  assumes "buffer_at (mem st) a = Some x" and "b_prev x = Some p"
      and "buffer_at (mem st) p = Some y" and "p \<noteq> a"
      and "0 \<le> b_size x" and "b_size x \<le> int (length (data x))" and "0 \<le> rl st"
      and "LLONG_MIN \<le> record_count y" and "LLONG_MIN \<le> byte_count y"
      and "rl st \<noteq> 0 \<longrightarrow> record_count y = c_div (byte_count y) (rl st)"
  shows "if rl st = 0 then
           (if record_count y
                 + int (length (filter (\<lambda>c. c = rs st) (take (nat (b_size x)) (data x))))
               \<le> LLONG_MAX
            then \<exists>st' x'. set_buffer_counters now a st = Inr st'
                   \<and> buffer_at (mem st') a = Some x' \<and> buffer_at (mem st') p = Some y
                   \<and> record_count x' = record_count y
                        + int (length (filter (\<lambda>c. c = rs st) (take (nat (b_size x)) (data x))))
                   \<and> record_count y \<le> record_count x'
                   \<and> byte_count x' = byte_count x
            else set_buffer_counters now a st = Inl (Undefined, st))
         else
           (if byte_count y + b_size x \<le> LLONG_MAX
            then \<exists>st' x'. set_buffer_counters now a st = Inr st'
                   \<and> buffer_at (mem st') a = Some x' \<and> buffer_at (mem st') p = Some y
                   \<and> byte_count x' = byte_count y + b_size x
                   \<and> byte_count y \<le> byte_count x'
                   \<and> record_count x' = c_div (byte_count x') (rl st)
                   \<and> record_count y \<le> record_count x'
            else set_buffer_counters now a st = Inl (Undefined, st))"
proof -
  have a: "a < length (mem st)"
    using assms(1) by (auto simp: buffer_at_def split: if_splits)
  show ?thesis
  proof (cases "rl st = 0")
    case True
    define k where "k = int (length (filter (\<lambda>c. c = rs st) (take (nat (b_size x)) (data x))))"
    have lo: "LLONG_MIN \<le> record_count y + k" using assms(8) by (simp add: k_def)
    show ?thesis
    proof (cases "record_count y + k \<le> LLONG_MAX")
      case False
      then have "long_long (record_count y + k) = None" by (simp add: long_long_def)
      with True False assms show ?thesis
        by (simp add: set_buffer_counters_def Let_def k_def)
    next
      case fits: True
      with lo have ll: "long_long (record_count y + k) = Some (record_count y + k)"
        by (simp add: long_long_def)
      define x1 where "x1 = (if time_window st then x\<lparr>timestamp := now\<rparr> else x)"
      have r: "set_buffer_counters now a st
          = Inr (st\<lparr>mem := store_buffer (mem st) a (x1\<lparr>record_count := record_count y + k\<rparr>)\<rparr>)"
        using True assms ll by (simp add: set_buffer_counters_def Let_def k_def x1_def)
      have "buffer_at (store_buffer (mem st) a (x1\<lparr>record_count := record_count y + k\<rparr>)) a
              = Some (x1\<lparr>record_count := record_count y + k\<rparr>)"
           "buffer_at (store_buffer (mem st) a (x1\<lparr>record_count := record_count y + k\<rparr>)) p
              = Some y"
        using a assms(3,4) by (simp_all add: buffer_at_store_buffer)
      moreover have "byte_count (x1\<lparr>record_count := record_count y + k\<rparr>) = byte_count x"
        by (simp add: x1_def)
      moreover have "0 \<le> k" by (simp add: k_def)
      ultimately show ?thesis
        using True fits r unfolding k_def[symmetric]
        by (simp add: k_def[symmetric])
    qed
  next
    case False
    then have pos: "0 < rl st" using assms(7) by simp
    have lo: "LLONG_MIN \<le> byte_count y + b_size x" using assms(5,9) by simp
    show ?thesis
    proof (cases "byte_count y + b_size x \<le> LLONG_MAX")
      case over: False
      then have "long_long (byte_count y + b_size x) = None" by (simp add: long_long_def)
      with False over assms show ?thesis
        by (simp add: set_buffer_counters_def Let_def)
    next
      case fits: True
      define bytes where "bytes = byte_count y + b_size x"
      from lo fits have ll: "long_long bytes = Some bytes"
        by (simp add: long_long_def bytes_def)
      from c_div_range[OF pos] lo fits
      have lr: "long_long (c_div bytes (rl st)) = Some (c_div bytes (rl st))"
        by (simp add: long_long_def bytes_def)
      have m: "c_div (byte_count y) (rl st) \<le> c_div bytes (rl st)"
        using c_div_mono[OF pos, of "byte_count y" bytes] assms(5) by (simp add: bytes_def)
      define x1 where "x1 = (if time_window st then x\<lparr>timestamp := now\<rparr> else x)"
      define x2 where "x2 = x1\<lparr>byte_count := bytes, record_count := c_div bytes (rl st)\<rparr>"
      have r: "set_buffer_counters now a st = Inr (st\<lparr>mem := store_buffer (mem st) a x2\<rparr>)"
        using False assms ll lr
        by (simp add: set_buffer_counters_def Let_def x1_def x2_def bytes_def[symmetric])
      have "buffer_at (store_buffer (mem st) a x2) a = Some x2"
           "buffer_at (store_buffer (mem st) a x2) p = Some y"
        using a assms(3,4) by (simp_all add: buffer_at_store_buffer)
      moreover have "byte_count x2 = bytes" "record_count x2 = c_div bytes (rl st)"
        by (simp_all add: x2_def)
      ultimately show ?thesis
        using False fits r m assms(5,10) by (simp add: bytes_def)
    qed
  qed
qed

text \<open>
  Witness for C9: records of 4 bytes, the buffer \<open>ABBB\<close> behind the buffer \<open>AAA\<close>; and
  newline-separated records, a buffer with two records behind a buffer with one.
\<close>

theorem set_buffer_counters_monotone_witness:
  "set_buffer_counters 0 1 fixed_pair = Inr fixed_pair_counted
   \<and> (\<exists>x'. buffer_at (mem fixed_pair_counted) 1 = Some x'
          \<and> byte_count x' = 7 \<and> record_count x' = 1)
   \<and> (\<exists>st' x'. set_buffer_counters 0 1 separated_pair = Inr st'
          \<and> buffer_at (mem st') 1 = Some x' \<and> record_count x' = 3 \<and> byte_count x' = 3)"
proof -
  let ?y = "\<lparr>b_next = Some 1, b_prev = None, b_size = 3, timestamp = 0,
                    record_count = 0, byte_count = 3, data = ''AAA''\<rparr>"
  let ?x = "\<lparr>b_next = None, b_prev = Some 0, b_size = 4, timestamp = 0,
                    record_count = 77, byte_count = 99, data = ''ABBB''\<rparr>"
  let ?v = "\<lparr>b_next = Some 1, b_prev = None, b_size = 2, timestamp = 0,
                    record_count = 1, byte_count = 5, data = [CHR ''a'', CHR 0x0A]\<rparr>"
  let ?w = "\<lparr>b_next = None, b_prev = Some 0, b_size = 4, timestamp = 0,
                    record_count = 77, byte_count = 3,
                    data = [CHR ''b'', CHR 0x0A, CHR ''c'', CHR 0x0A]\<rparr>"
  have e: "set_buffer_counters 0 1 fixed_pair = Inr fixed_pair_counted"
    by (simp add: set_buffer_counters_def fixed_pair_counted_def fixed_pair_def store0_def
          buffer_at_def store_buffer_def c_div_def long_long_def LLONG_MAX_def LLONG_MIN_def)
  have h: "buffer_at (mem fixed_pair) 1 = Some ?x" "b_prev ?x = Some 0"
    "buffer_at (mem fixed_pair) 0 = Some ?y" "(0::nat) \<noteq> 1" "0 \<le> b_size ?x"
    "b_size ?x \<le> int (length (data ?x))" "0 \<le> rl fixed_pair"
    "LLONG_MIN \<le> record_count ?y" "LLONG_MIN \<le> byte_count ?y"
    "rl fixed_pair \<noteq> 0 \<longrightarrow> record_count ?y = c_div (byte_count ?y) (rl fixed_pair)"
    by (simp_all add: fixed_pair_def store0_def buffer_at_def c_div_def LLONG_MIN_def)
  have r: "rl fixed_pair \<noteq> 0" "byte_count ?y + b_size ?x \<le> LLONG_MAX"
    by (simp_all add: fixed_pair_def store0_def LLONG_MAX_def)
  from set_buffer_counters_monotone[OF h, of 0] r
  have "\<exists>st' x'. set_buffer_counters 0 1 fixed_pair = Inr st'
          \<and> buffer_at (mem st') 1 = Some x' \<and> byte_count x' = byte_count ?y + b_size ?x
          \<and> record_count x' = c_div (byte_count x') (rl fixed_pair)"
    by (simp split: if_splits) blast
  with e have fixed: "\<exists>x'. buffer_at (mem fixed_pair_counted) 1 = Some x'
          \<and> byte_count x' = 7 \<and> record_count x' = 1"
    by (auto simp: fixed_pair_def store0_def c_div_def)
  have g: "buffer_at (mem separated_pair) 1 = Some ?w" "b_prev ?w = Some 0"
    "buffer_at (mem separated_pair) 0 = Some ?v" "(0::nat) \<noteq> 1" "0 \<le> b_size ?w"
    "b_size ?w \<le> int (length (data ?w))" "0 \<le> rl separated_pair"
    "LLONG_MIN \<le> record_count ?v" "LLONG_MIN \<le> byte_count ?v"
    "rl separated_pair \<noteq> 0 \<longrightarrow> record_count ?v = c_div (byte_count ?v) (rl separated_pair)"
    by (simp_all add: separated_pair_def store0_def buffer_at_def LLONG_MIN_def)
  have q: "rl separated_pair = 0" "rs separated_pair = CHR 0x0A"
    by (simp_all add: separated_pair_def store0_def)
  from set_buffer_counters_monotone[OF g, of 0] q
  have "\<exists>st' x'. set_buffer_counters 0 1 separated_pair = Inr st'
          \<and> buffer_at (mem st') 1 = Some x' \<and> record_count x' = 3 \<and> byte_count x' = 3"
    by (simp add: LLONG_MAX_def) blast
  with e fixed show ?thesis by blast
qed

lemma and_then_simps [simp]:
  "and_then (Inr st) f = f st" "and_then (Inl x) f = Inl x"
  by (simp_all add: and_then_def)

text \<open>The definitions that a run on a concrete store unfolds.\<close>

lemmas store_eval =
  buffer_read_def set_buffer_counters_def update_current_record_def
  update_current_record_by_rs_def update_current_record_by_rl_def free_unused_buffers_def
  free_unused_from.simps dpointer_move_back.simps dpointer_subtract.simps
  dpointer_decrement_def dpointer_increment_def byte_at_def returned_def
  buffer_at_def store_buffer_def free_buffer_def c_div_def c_mod_def EAGAIN_def
  serve_client_def write_record_def write_vectors_def towrite_from_def advance_write_def
  read_command_def content_length_def
  content_length_from.simps oldest_buffer_def oldest_buffer_from.simps
  update_oldest_buffer_def with_client_def unsigned_of_int_def printf_010u_def
  decimal.simps CONTENT_LENGTH_DIGITS_def long_long_def LLONG_MAX_def LLONG_MIN_def

text \<open>
  Counterexample to C9 as stated. Newline-separated records; \<open>malloc\<close> returns a buffer
  whose \<open>byte_count\<close> field holds 5, then one whose field holds 3. After both reads the
  queue has the two buffers, adjacent, with \<open>byte_count\<close> 5 before \<open>byte_count\<close> 3.
\<close>

theorem byte_count_unset_with_separator:
  "and_then (buffer_read (Some (raw0\<lparr>byte_count := 5\<rparr>)) 0 (Io_ok 2 [CHR ''a'', CHR 0x0A]) (store0 0))
     (buffer_read (Some (raw0\<lparr>byte_count := 3\<rparr>)) 0 (Io_ok 1 [CHR ''b'']))
   = Inr ((store0 0)\<lparr>have_record := True,
        mem := [Some \<lparr>b_next = Some 1, b_prev = None, b_size = 2, timestamp = 0,
                      record_count = 1, byte_count = 5, data = [CHR ''a'', CHR 0x0A]\<rparr>,
                Some \<lparr>b_next = None, b_prev = Some 0, b_size = 1, timestamp = 0,
                      record_count = 1, byte_count = 3, data = [CHR ''b'']\<rparr>],
        head := Some 0, tail := Some 1,
        current_record_begin := \<lparr>dp_b = Some 0, dp_pos = 0\<rparr>,
        current_record_end := \<lparr>dp_b = Some 1, dp_pos = 0\<rparr>\<rparr>)"
  by (simp add: store_eval store0_def raw0_def)

section \<open>sgsh-writeval.c: sending a response\<close>

lemma slice_split:
  assumes "0 \<le> p" and "0 \<le> n" and "n \<le> k"
  shows "take (nat n) (take (nat k) (drop (nat p) d)) @ take (nat (k - n)) (drop (nat (p + n)) d)
           = take (nat k) (drop (nat p) d)"
proof -
  have "take (nat n) (take (nat k) (drop (nat p) d)) = take (nat n) (drop (nat p) d)"
    using assms by (simp add: min_def)
  moreover have "take (nat (k - n)) (drop (nat (p + n)) d)
                   = drop (nat n) (take (nat k) (drop (nat p) d))"
    using assms by (simp add: drop_take nat_add_distrib nat_diff_distrib add.commute)
  moreover have "take (nat n) (drop (nat p) d) @ drop (nat n) (take (nat k) (drop (nat p) d))
                   = take (nat k) (drop (nat p) d)"
    using assms
    by (metis append_take_drop_id calculation(1))
  ultimately show ?thesis by simp
qed

lemma slice_length:
  assumes "0 \<le> p" and "0 \<le> k" and "p + k \<le> int (length d)"
  shows "int (length (take (nat k) (drop (nat p) d))) = k"
  using assms by simp


lemma with_client_same: "i < length (clients st) \<Longrightarrow> with_client st i (clients st ! i) = st"
  by (simp add: with_client_def)

lemma list_shape:
  obtains "as = []" | a where "as = [a]" | a a' rest where "as = a # a' # rest"
  by (cases as; cases "tl as") auto

lemma sending_cursors_towrite:
  assumes "sending_cursors m c as" and "buffer_at m (hd as) = Some x"
  shows "0 \<le> dp_pos (write_begin c) \<and> 0 \<le> towrite_from c x
       \<and> dp_pos (write_begin c) + towrite_from c x \<le> int (length (data x))"
proof (cases as rule: list_shape)
  case 1
  with assms show ?thesis by (simp add: sending_cursors_def)
next
  case (2 a)
  with assms show ?thesis by (auto simp: sending_cursors_def towrite_from_def)
next
  case (3 a a' rest)
  with assms show ?thesis by (auto simp: sending_cursors_def towrite_from_def)
qed

lemma advance_write_step:
  assumes cur: "sending_cursors m c as" and x: "buffer_at m (hd as) = Some x"
      and n: "0 \<le> n" "n \<le> towrite_from c x"
  shows "received (advance_write c x n) = received c
       \<and> ((state (advance_write c x n) = state c
             \<and> (\<exists>as'. sending_cursors m (advance_write c x n) as'
                   \<and> take (nat n) (take (nat (towrite_from c x))
                                       (drop (nat (dp_pos (write_begin c))) (data x)))
                       @ still_to_send m (advance_write c x n) as'
                     = still_to_send m c as))
            \<or> (state (advance_write c x n) = s_wait_close
                \<and> take (nat n) (take (nat (towrite_from c x))
                                    (drop (nat (dp_pos (write_begin c))) (data x)))
                    = still_to_send m c as))"
proof (cases as rule: list_shape)
  case 1
  with cur show ?thesis by (simp add: sending_cursors_def)
next
  case (2 a)
  with cur x have same: "dp_b (write_begin c) = dp_b (write_end c)"
    and b: "0 \<le> dp_pos (write_begin c)" "dp_pos (write_begin c) \<le> dp_pos (write_end c)"
           "dp_pos (write_end c) \<le> b_size x" "b_size x \<le> int (length (data x))"
    and xa: "buffer_at m a = Some x"
    by (auto simp: sending_cursors_def)
  have tw: "towrite_from c x = dp_pos (write_end c) - dp_pos (write_begin c)"
    using same by (simp add: towrite_from_def)
  show ?thesis
  proof (cases "dp_pos (write_begin c) + n < dp_pos (write_end c)")
    case True
    then have adv: "advance_write c x n
                      = c\<lparr>write_begin := (write_begin c)\<lparr>dp_pos := dp_pos (write_begin c) + n\<rparr>\<rparr>"
      using same b by (simp add: advance_write_def)
    have "sending_cursors m (advance_write c x n) as"
      using cur 2 xa b n True by (simp add: adv sending_cursors_def)
    moreover have "take (nat n) (take (nat (towrite_from c x))
                                       (drop (nat (dp_pos (write_begin c))) (data x)))
                       @ still_to_send m (advance_write c x n) as
                     = still_to_send m c as"
      using slice_split[OF b(1) n(1), of "towrite_from c x" "data x"] n(2) xa 2
      by (simp add: adv still_to_send_def tw algebra_simps)
    ultimately show ?thesis by (auto simp: adv)
  next
    case False
    with n tw have eq: "n = towrite_from c x" by simp
    from False have adv: "advance_write c x n
              = c\<lparr>write_begin := (write_begin c)\<lparr>dp_pos := dp_pos (write_begin c) + n\<rparr>,
                  state := s_wait_close\<rparr>"
      using same b by (simp add: advance_write_def)
    have "take (nat n) (take (nat (towrite_from c x))
                                    (drop (nat (dp_pos (write_begin c))) (data x)))
                    = still_to_send m c as"
      using xa 2 unfolding still_to_send_def by (simp add: eq tw)
    then show ?thesis by (simp add: adv)
  qed
next
  case (3 a a' rest)
  with cur x have diff: "dp_b (write_begin c) \<noteq> dp_b (write_end c)"
    and b: "0 \<le> dp_pos (write_begin c)" "dp_pos (write_begin c) \<le> b_size x"
           "b_size x \<le> int (length (data x))"
    and nx: "b_next x = Some a'"
    and rr: "record_range m (a' # rest) 0 (dp_pos (write_end c))"
    and xa: "buffer_at m a = Some x"
    and ends: "dp_b (write_begin c) = Some a" "dp_b (write_end c) = Some (last (a' # rest))"
    by (auto simp: sending_cursors_def)
  have tw: "towrite_from c x = b_size x - dp_pos (write_begin c)"
    using diff by (simp add: towrite_from_def)
  show ?thesis
  proof (cases "dp_pos (write_begin c) + n < b_size x")
    case True
    then have adv: "advance_write c x n
                      = c\<lparr>write_begin := (write_begin c)\<lparr>dp_pos := dp_pos (write_begin c) + n\<rparr>\<rparr>"
      using diff by (simp add: advance_write_def)
    have "sending_cursors m (advance_write c x n) as"
      using cur 3 xa b n True by (simp add: adv sending_cursors_def)
    moreover have "take (nat n) (take (nat (towrite_from c x))
                                       (drop (nat (dp_pos (write_begin c))) (data x)))
                       @ still_to_send m (advance_write c x n) as
                     = still_to_send m c as"
      using slice_split[OF b(1) n(1), of "towrite_from c x" "data x"] n(2) xa 3
      by (simp add: adv still_to_send_def tw algebra_simps)
    ultimately show ?thesis by (auto simp: adv)
  next
    case False
    with n tw have eq: "n = towrite_from c x" by simp
    from False have adv: "advance_write c x n = c\<lparr>write_begin := \<lparr>dp_b = b_next x, dp_pos = 0\<rparr>\<rparr>"
      using diff by (simp add: advance_write_def)
    have "sending_cursors m (advance_write c x n) (a' # rest)"
      using rr nx ends by (simp add: adv sending_cursors_def)
    moreover have "take (nat n) (take (nat (towrite_from c x))
                                       (drop (nat (dp_pos (write_begin c))) (data x)))
                       @ still_to_send m (advance_write c x n) (a' # rest)
                     = still_to_send m c as"
      using xa 3 unfolding adv still_to_send_def by (simp add: eq tw)
    ultimately show ?thesis by (auto simp: adv)
  qed
qed


lemma record_range_last_single:
  assumes "record_range m (a # rest) p q" and "a = last (a # rest)"
  shows "rest = []"
proof (cases rest)
  case Nil
  then show ?thesis by simp
next
  case (Cons r rest')
  with assms show ?thesis by (auto split: option.splits)
qed

lemma content_length_from_range:
  assumes "record_range m (b # bs) 0 q" and "bs \<noteq> []"
  shows "content_length_from m (Some (last (b # bs))) b acc
           = Some (Inr (acc + int (length (record_bytes m (b # bs) 0 q)) - q))"
  using assms
proof (induction bs arbitrary: b acc)
  case Nil
  then show ?case by simp
next
  case (Cons b' bs')
  from Cons.prems(1) obtain y where y: "buffer_at m b = Some y"
    and yb: "0 \<le> b_size y" "b_size y \<le> int (length (data y))" "b_next y = Some b'"
            "b \<noteq> last (b' # bs')"
    and rr: "record_range m (b' # bs') 0 q"
    by (auto split: option.splits)
  have ly: "int (length (take (nat (b_size y)) (data y))) = b_size y"
    using yb by simp
  show ?case
  proof (cases "b' = last (b' # bs')")
    case True
    with rr have e: "bs' = []" using record_range_last_single by blast
    with rr obtain z where z: "buffer_at m b' = Some z" "0 \<le> q" "q \<le> b_size z"
        "b_size z \<le> int (length (data z))"
      by (auto split: option.splits)
    have "int (length (record_bytes m (b # b' # bs') 0 q)) = b_size y + q"
      using y z ly e by simp
    moreover have "content_length_from m (Some (last (b # b' # bs'))) b acc
                     = Some (Inr (acc + b_size y))"
      using y yb e by (subst content_length_from.simps) simp
    ultimately show ?thesis by simp
  next
    case False
    then have ne: "bs' \<noteq> []" by auto
    from Cons.IH[OF rr ne, of "acc + b_size y"]
    have ih: "content_length_from m (Some (last (b' # bs'))) b' (acc + b_size y)
                = Some (Inr (acc + b_size y + int (length (record_bytes m (b' # bs') 0 q)) - q))" .
    have "content_length_from m (Some (last (b # b' # bs'))) b acc
            = content_length_from m (Some (last (b' # bs'))) b' (acc + b_size y)"
      using y yb False by (subst content_length_from.simps) simp
    moreover have "int (length (record_bytes m (b # b' # bs') 0 q))
                     = b_size y + int (length (record_bytes m (b' # bs') 0 q))"
      using y ly by simp
    ultimately show ?thesis using ih by simp
  qed
qed

lemma content_length_range:
  assumes "sending_cursors m c as"
  shows "content_length m c = Inr (unsigned_of_int (int (length (still_to_send m c as))))"
proof (cases as rule: list_shape)
  case 1
  with assms show ?thesis by (simp add: sending_cursors_def)
next
  case (2 a)
  with assms obtain x where "buffer_at m a = Some x" "dp_b (write_begin c) = dp_b (write_end c)"
    "0 \<le> dp_pos (write_begin c)" "dp_pos (write_begin c) \<le> dp_pos (write_end c)"
    "dp_pos (write_end c) \<le> b_size x" "b_size x \<le> int (length (data x))"
    by (auto simp: sending_cursors_def split: option.splits)
  with 2 show ?thesis
    by (simp add: content_length_def still_to_send_def)
next
  case (3 a a' rest)
  with assms obtain x where x: "buffer_at m a = Some x"
    and diff: "dp_b (write_begin c) \<noteq> dp_b (write_end c)"
    and ends: "dp_b (write_begin c) = Some a" "dp_b (write_end c) = Some (last (a' # rest))"
    and b: "0 \<le> dp_pos (write_begin c)" "dp_pos (write_begin c) \<le> b_size x"
           "b_size x \<le> int (length (data x))" "b_next x = Some a'"
    and rr: "record_range m (a' # rest) 0 (dp_pos (write_end c))"
    by (auto simp: sending_cursors_def split: option.splits)
  have lx: "int (length (take (nat (b_size x - dp_pos (write_begin c)))
                             (drop (nat (dp_pos (write_begin c))) (data x))))
              = b_size x - dp_pos (write_begin c)"
    using b by simp
  have total: "int (length (still_to_send m c as))
                 = b_size x - dp_pos (write_begin c)
                   + int (length (record_bytes m (a' # rest) 0 (dp_pos (write_end c))))"
    using x 3 lx by (simp add: still_to_send_def)
  show ?thesis
  proof (cases "a' = last (a' # rest)")
    case True
    with rr have e: "rest = []" using record_range_last_single by blast
    with rr obtain z where z: "buffer_at m a' = Some z" "0 \<le> dp_pos (write_end c)"
        "dp_pos (write_end c) \<le> b_size z" "b_size z \<le> int (length (data z))"
      by (auto split: option.splits)
    have "int (length (record_bytes m (a' # rest) 0 (dp_pos (write_end c)))) = dp_pos (write_end c)"
      using z e by simp
    with total diff ends x b e show ?thesis
      by (simp add: content_length_def)
  next
    case False
    then have ne: "rest \<noteq> []" by auto
    from content_length_from_range[OF rr ne, of "b_size x - dp_pos (write_begin c)"]
    have "returned (content_length_from m (dp_b (write_end c)) a' (b_size x - dp_pos (write_begin c)))
            = Inr (b_size x - dp_pos (write_begin c)
                   + int (length (record_bytes m (a' # rest) 0 (dp_pos (write_end c))))
                   - dp_pos (write_end c))"
      using ends by (simp add: returned_def)
    with total diff ends x b False show ?thesis
      by (simp add: content_length_def)
  qed
qed


lemma printf_010u_header: "length (take 10 (printf_010u n)) = 10"
  by (simp add: printf_010u_def)

lemma decimal_length: "0 < k \<Longrightarrow> n < 10 ^ k \<Longrightarrow> length (decimal n) \<le> k"
proof (induction k arbitrary: n)
  case 0
  then show ?case by simp
next
  case (Suc k)
  show ?case
  proof (cases "n < 10")
    case True
    then show ?thesis by (subst decimal.simps) simp
  next
    case False
    then have k: "0 < k" using Suc.prems by (cases k) auto
    have "n div 10 < 10 ^ k" using Suc.prems(2) by (simp add: less_mult_imp_div_less mult.commute)
    from Suc.IH[OF k this] False show ?thesis by (subst decimal.simps) simp
  qed
qed

lemma printf_010u_exact: "n < 10 ^ 10 \<Longrightarrow> take 10 (printf_010u n) = printf_010u n"
  using decimal_length[of 10 n] by (simp add: printf_010u_def)

lemma sending_cursors_received [simp]:
  "sending_cursors m (c\<lparr>received := r\<rparr>) as = sending_cursors m c as"
  "still_to_send m (c\<lparr>received := r\<rparr>) as = still_to_send m c as"
  "towrite_from (c\<lparr>received := r\<rparr>) x = towrite_from c x"
  by (simp_all add: sending_cursors_def still_to_send_def towrite_from_def)

lemma sending_cursors_buffer:
  "sending_cursors m c as \<Longrightarrow> \<exists>x. buffer_at m (hd as) = Some x \<and> dp_b (write_begin c) = Some (hd as)"
  by (cases as rule: list_shape) (auto simp: sending_cursors_def split: option.splits)

lemma received_update: "received (c\<lparr>received := r\<rparr>) = r"
  by simp

lemma take_header: "length h \<le> k \<Longrightarrow> take k (h @ bs) = h @ take (k - length h) bs"
  by simp

lemma write_record_ok:
  assumes "i < length (clients st)" and "dp_b (write_begin (clients st ! i)) = Some a"
      and "buffer_at (mem st) a = Some x"
      and "write_vectors (mem st) (clients st ! i) x wl = Inr (h, bs)"
  shows "write_record i wl (Io_ok room y) st =
           (if wl \<and> min (max room 0) (int (length (h @ bs))) < CONTENT_LENGTH_DIGITS
            then Inl (Exit 1, with_client st i
                   ((clients st ! i)\<lparr>received := received (clients st ! i)
                       @ take (nat (min (max room 0) (int (length (h @ bs))))) (h @ bs)\<rparr>))
            else Inr (with_client st i
                   (advance_write
                      ((clients st ! i)\<lparr>received := received (clients st ! i)
                          @ take (nat (min (max room 0) (int (length (h @ bs))))) (h @ bs)\<rparr>)
                      x (if wl then min (max room 0) (int (length (h @ bs))) - CONTENT_LENGTH_DIGITS
                         else min (max room 0) (int (length (h @ bs)))))))"
  using assms unfolding write_record_def by (simp add: Let_def)

lemma write_record_eagain:
  assumes "i < length (clients st)" and "dp_b (write_begin (clients st ! i)) = Some a"
      and "buffer_at (mem st) a = Some x"
      and "write_vectors (mem st) (clients st ! i) x wl = Inr (h, bs)"
  shows "write_record i wl (Io_error e) st = (if e = EAGAIN then Inr st else Inl (Exit 3, st))"
  using assms unfolding write_record_def by simp

lemma write_record_step:
  assumes i: "i < length (clients st)"
      and cur: "sending_cursors (mem st) (clients st ! i) as"
      and out: "wl \<longrightarrow> (\<exists>room y. w = Io_ok room y)"
      and run: "write_record i wl w st = Inr st'"
      and hdr: "hdr = (if wl then take 10 (printf_010u (unsigned_of_int
                         (int (length (still_to_send (mem st) (clients st ! i) as))))) else [])"
  shows "\<exists>c'. st' = with_client st i c'
           \<and> ((state c' = state (clients st ! i)
                 \<and> (\<exists>as'. sending_cursors (mem st) c' as'
                        \<and> received c' @ still_to_send (mem st) c' as'
                          = received (clients st ! i) @ hdr
                            @ still_to_send (mem st) (clients st ! i) as))
                \<or> (state c' = s_wait_close
                    \<and> received c' = received (clients st ! i) @ hdr
                                       @ still_to_send (mem st) (clients st ! i) as))"
proof -
  let ?c = "clients st ! i"
  from sending_cursors_buffer[OF cur] obtain x where
    x: "buffer_at (mem st) (hd as) = Some x" "dp_b (write_begin ?c) = Some (hd as)" by blast
  let ?bytes = "take (nat (towrite_from ?c x)) (drop (nat (dp_pos (write_begin ?c))) (data x))"
  note tw = sending_cursors_towrite[OF cur x(1)]
  have wv: "write_vectors (mem st) ?c x wl = Inr (hdr, ?bytes)"
    using tw content_length_range[OF cur] hdr by (simp add: write_vectors_def)
  have lb: "int (length ?bytes) = towrite_from ?c x"
    using slice_length[of "dp_pos (write_begin ?c)" "towrite_from ?c x" "data x"] tw by blast
  have lh: "int (length hdr) = (if wl then 10 else 0)"
    using hdr by (simp add: printf_010u_def)
  show ?thesis
  proof (cases w)
    case (Io_error e)
    with out have nwl: "\<not> wl" by simp
    from run Io_error write_record_eagain[OF i x(2,1) wv] have "st' = st"
      by (simp split: if_splits)
    then have "st' = with_client st i ?c" using i by (simp add: with_client_same)
    moreover have "hdr = []" using nwl hdr by simp
    ultimately show ?thesis using cur by (intro exI[of _ ?c]) auto
  next
    case (Io_ok room y)
    define n where "n = min (max room 0) (int (length (hdr @ ?bytes)))"
    define c1 where "c1 = ?c\<lparr>received := received ?c @ take (nat n) (hdr @ ?bytes)\<rparr>"
    define n1 where "n1 = (if wl then n - CONTENT_LENGTH_DIGITS else n)"
    have r: "write_record i wl w st =
               (if wl \<and> n < CONTENT_LENGTH_DIGITS then Inl (Exit 1, with_client st i c1)
                else Inr (with_client st i (advance_write c1 x n1)))"
      unfolding Io_ok n_def c1_def n1_def by (rule write_record_ok[OF i x(2,1) wv])
    with run have ok: "\<not> (wl \<and> n < CONTENT_LENGTH_DIGITS)"
      and st': "st' = with_client st i (advance_write c1 x n1)"
      by (auto split: if_splits)
    have n_rng: "0 \<le> n" "n \<le> int (length hdr) + towrite_from ?c x"
      using lb by (simp_all add: n_def)
    have n1_eq: "n1 = n - int (length hdr)"
      using lh by (simp add: n1_def CONTENT_LENGTH_DIGITS_def)
    have n1_rng: "0 \<le> n1" "n1 \<le> towrite_from ?c x"
      using n_rng ok lh by (auto simp: n1_eq CONTENT_LENGTH_DIGITS_def split: if_splits)
    have tk: "take (nat n) (hdr @ ?bytes) = hdr @ take (nat n1) ?bytes"
    proof -
      have l: "length hdr \<le> nat n" using n1_rng(1) n1_eq by simp
      have "nat n - length hdr = nat n1" using n1_rng(1) n1_eq by simp
      with take_header[OF l, of ?bytes] show ?thesis by (simp only:)
    qed
    have cur1: "sending_cursors (mem st) c1 as" using cur by (simp add: c1_def)
    have tw1: "towrite_from c1 x = towrite_from ?c x" by (simp add: c1_def)
    have wb1: "write_begin c1 = write_begin ?c" by (simp add: c1_def)
    from advance_write_step[OF cur1 x(1) n1_rng(1)] n1_rng(2) tw1 wb1
    have adv: "received (advance_write c1 x n1) = received c1
       \<and> ((state (advance_write c1 x n1) = state c1
             \<and> (\<exists>as'. sending_cursors (mem st) (advance_write c1 x n1) as'
                   \<and> take (nat n1) ?bytes @ still_to_send (mem st) (advance_write c1 x n1) as'
                     = still_to_send (mem st) c1 as))
            \<or> (state (advance_write c1 x n1) = s_wait_close
                \<and> take (nat n1) ?bytes = still_to_send (mem st) c1 as))"
      by simp
    have rc1: "received c1 = received ?c @ hdr @ take (nat n1) ?bytes"
      by (simp only: c1_def received_update tk)
    have sc1: "state c1 = state ?c" "still_to_send (mem st) c1 as = still_to_send (mem st) ?c as"
      by (simp_all add: c1_def)
    from adv have ra: "received (advance_write c1 x n1) = received c1" by blast
    from adv consider
        as' where "state (advance_write c1 x n1) = state c1"
          "sending_cursors (mem st) (advance_write c1 x n1) as'"
          "take (nat n1) ?bytes @ still_to_send (mem st) (advance_write c1 x n1) as'
             = still_to_send (mem st) c1 as"
      | "state (advance_write c1 x n1) = s_wait_close"
        "take (nat n1) ?bytes = still_to_send (mem st) c1 as"
      by blast
    then show ?thesis
    proof cases
      case 1
      have "received (advance_write c1 x n1) @ still_to_send (mem st) (advance_write c1 x n1) as'
              = received ?c @ hdr @ still_to_send (mem st) ?c as"
        using 1(3) by (simp only: ra rc1 sc1 append_assoc)
      with 1(1,2) sc1(1) st' show ?thesis
        by (intro exI[of _ "advance_write c1 x n1"] conjI disjI1 exI[of _ as']) simp_all
    next
      case 2
      have "received (advance_write c1 x n1) = received ?c @ hdr @ still_to_send (mem st) ?c as"
        using 2(2) by (simp only: ra rc1 sc1)
      with 2(1) st' show ?thesis
        by (intro exI[of _ "advance_write c1 x n1"] conjI disjI2) simp_all
    qed
  qed
qed

lemma serve_client_sending:
  "i < length (clients st) \<Longrightarrow> state (clients st ! i) = s_sending_response \<Longrightarrow> have_record st
     \<Longrightarrow> serve_client i False True w st = write_record i False w st"
  by (simp add: serve_client_def)

lemma serve_client_wait_close:
  "i < length (clients st) \<Longrightarrow> state (clients st ! i) = s_wait_close
     \<Longrightarrow> serve_client i False True w st = Inr st"
  by (simp add: serve_client_def)

lemma serve_client_first:
  assumes "i < length (clients st)"
      and "state (clients st ! i) = s_send_current \<or> state (clients st ! i) = s_send_last"
      and "have_record st"
      and "oldest_buffer (mem st) (head st) (oldest_buffer_being_written st)
             (dp_b (current_record_begin st)) = Inr old"
  shows "serve_client i False True w st =
           write_record i True w
             ((with_client st i ((clients st ! i)\<lparr>write_begin := current_record_begin st,
                                   write_end := current_record_end st,
                                   state := s_sending_response\<rparr>))
              \<lparr>oldest_buffer_being_written := old\<rparr>)"
  using assms by (auto simp: serve_client_def)

lemma with_client_fields:
  "mem (with_client st i c) = mem st" "have_record (with_client st i c) = have_record st"
  "length (clients (with_client st i c)) = length (clients st)"
  "i < length (clients st) \<Longrightarrow> clients (with_client st i c) ! i = c"
  by (simp_all add: with_client_def)

lemma response_progress_step:
  assumes p: "response_progress m full i st" and r: "serve_client i False True w st = Inr st'"
  shows "response_progress m full i st'"
proof -
  from p have i: "i < length (clients st)" and h: "have_record st" and m: "mem st = m"
    by (simp_all add: response_progress_def)
  from p consider
      as where "state (clients st ! i) = s_sending_response"
        "sending_cursors m (clients st ! i) as"
        "received (clients st ! i) @ still_to_send m (clients st ! i) as = full"
    | "state (clients st ! i) = s_wait_close" "received (clients st ! i) = full"
    unfolding response_progress_def by blast
  then show ?thesis
  proof cases
    case 2
    with r i have "st' = st" by (simp add: serve_client_wait_close)
    with p show ?thesis by simp
  next
    case 1
    from r 1(1) i h have w: "write_record i False w st = Inr st'"
      by (simp add: serve_client_sending)
    from write_record_step[OF i _ _ w, of as "[]"] 1(2) m
    obtain c' where c': "st' = with_client st i c'"
      "(state c' = state (clients st ! i)
          \<and> (\<exists>as'. sending_cursors (mem st) c' as'
                \<and> received c' @ still_to_send (mem st) c' as'
                    = received (clients st ! i) @ [] @ still_to_send (mem st) (clients st ! i) as))
       \<or> (state c' = s_wait_close
           \<and> received c' = received (clients st ! i) @ [] @ still_to_send (mem st) (clients st ! i) as)"
      by auto
    have f: "i < length (clients st')" "have_record st'" "mem st' = m" "clients st' ! i = c'"
      using i h m by (simp_all add: c'(1) with_client_fields)
    from c'(2) 1(1,3) m f(1,2,3) show ?thesis
      unfolding response_progress_def f(4) by auto
  qed
qed

lemma response_progress_events:
  "response_progress m full i st \<Longrightarrow> send_events i ws st = Inr st'
     \<Longrightarrow> response_progress m full i st'"
proof (induction ws arbitrary: st)
  case Nil
  then show ?case by simp
next
  case (Cons w ws)
  from Cons.prems(2) obtain st1 where s: "serve_client i False True w st = Inr st1"
    and r: "send_events i ws st1 = Inr st'"
    by (auto split: sum.splits)
  from Cons.IH[OF response_progress_step[OF Cons.prems(1) s] r] show ?case .
qed


lemma unsigned_of_int_small: "n < 2 ^ 32 \<Longrightarrow> unsigned_of_int (int n) = n"
  by (simp add: unsigned_of_int_def)

text \<open>
  The response round trip, short writes included. A client waits for a record; the
  current record lies between the two record cursors and is shorter than \<open>2 ^ 32\<close>
  bytes. Its first \<open>writev\<close> call does not fail, and every later one writes any part of
  what is asked or fails with \<open>EAGAIN\<close>. Once the client has reached \<open>s_wait_close\<close>,
  its peer has received the ten digits of the record's length and then the bytes of the
  record, as they were in the queue when the response began.
\<close>

theorem response_round_trip:
  assumes i: "i < length (clients st)"
      and s: "state (clients st ! i) = s_send_current \<or> state (clients st ! i) = s_send_last"
      and h: "have_record st"
      and r: "dp_b (current_record_begin st) = Some (hd as)"
             "dp_b (current_record_end st) = Some (last as)"
             "record_range (mem st) as (dp_pos (current_record_begin st))
                (dp_pos (current_record_end st))"
      and o: "oldest_buffer (mem st) (head st) (oldest_buffer_being_written st)
                (dp_b (current_record_begin st)) = Inr old"
      and sz: "length (record_bytes (mem st) as (dp_pos (current_record_begin st))
                         (dp_pos (current_record_end st))) < 2 ^ 32"
      and run: "send_events i (Io_ok room y # ws) st = Inr st'"
      and fin: "state (clients st' ! i) = s_wait_close"
  shows "received (clients st' ! i)
           = received (clients st ! i)
             @ printf_010u (length (record_bytes (mem st) as (dp_pos (current_record_begin st))
                                      (dp_pos (current_record_end st))))
             @ record_bytes (mem st) as (dp_pos (current_record_begin st))
                 (dp_pos (current_record_end st))
       \<and> length (printf_010u (length (record_bytes (mem st) as
                    (dp_pos (current_record_begin st)) (dp_pos (current_record_end st))))) = 10"
proof -
  let ?payload = "record_bytes (mem st) as (dp_pos (current_record_begin st))
                    (dp_pos (current_record_end st))"
  let ?c0 = "(clients st ! i)\<lparr>write_begin := current_record_begin st,
                                write_end := current_record_end st,
                                state := s_sending_response\<rparr>"
  let ?st0 = "(with_client st i ?c0)\<lparr>oldest_buffer_being_written := old\<rparr>"
  have f0: "i < length (clients ?st0)" "clients ?st0 ! i = ?c0" "mem ?st0 = mem st"
    "have_record ?st0 = have_record st"
    using i by (simp_all add: with_client_def)
  have cur: "sending_cursors (mem ?st0) (clients ?st0 ! i) as"
    using r unfolding f0 by (simp add: sending_cursors_def)
  have pay: "still_to_send (mem ?st0) (clients ?st0 ! i) as = ?payload"
    unfolding f0 by (simp add: still_to_send_def)
  from run obtain st1 where s1: "serve_client i False True (Io_ok room y) st = Inr st1"
    and rest: "send_events i ws st1 = Inr st'"
    by (auto split: sum.splits)
  have w: "write_record i True (Io_ok room y) ?st0 = Inr st1"
    using serve_client_first[OF i s h o, of "Io_ok room y"] s1 by simp
  have big: "length ?payload < 10 ^ 10"
  proof -
    have "(2::nat) ^ 32 < 10 ^ 10" by simp
    with sz show ?thesis by linarith
  qed
  have hdr: "take 10 (printf_010u (unsigned_of_int (int (length ?payload))))
               = printf_010u (length ?payload)"
    using sz big by (simp add: unsigned_of_int_small printf_010u_exact)
  have len: "length (printf_010u (length ?payload)) = 10"
    using printf_010u_header[of "length ?payload"] printf_010u_exact[OF big] by simp
  let ?full = "received (clients st ! i) @ printf_010u (length ?payload) @ ?payload"
  from write_record_step[OF f0(1) cur _ w, of "printf_010u (length ?payload)"] hdr pay
  obtain c' where c': "st1 = with_client ?st0 i c'"
    "(state c' = state (clients ?st0 ! i)
        \<and> (\<exists>as'. sending_cursors (mem ?st0) c' as'
              \<and> received c' @ still_to_send (mem ?st0) c' as'
                  = received (clients ?st0 ! i) @ printf_010u (length ?payload) @ ?payload))
     \<or> (state c' = s_wait_close
         \<and> received c' = received (clients ?st0 ! i) @ printf_010u (length ?payload) @ ?payload)"
    by auto
  have f1: "i < length (clients st1)" "have_record st1" "mem st1 = mem st" "clients st1 ! i = c'"
    using i h by (simp_all add: c'(1) with_client_def)
  have rc0: "received (clients ?st0 ! i) = received (clients st ! i)"
            "state (clients ?st0 ! i) = s_sending_response"
    unfolding f0 by simp_all
  have p1: "response_progress (mem st) ?full i st1"
    using c'(2) f1(1,2,3) unfolding response_progress_def f1(4) rc0 f0(3) by auto
  from response_progress_events[OF p1 rest] fin
  have "received (clients st' ! i) = ?full"
    by (auto simp: response_progress_def)
  with len show ?thesis by simp
qed

text \<open>
  The store after reading the example input: the current record is \<open>bb\<close> with its
  newline, bytes 2 to 4 of the buffer.
\<close>

lemma store_abc_value:
  "store_abc = Inr ((store0 0)\<lparr>have_record := True,
        mem := [Some \<lparr>b_next = None, b_prev = None, b_size = 7, timestamp = 0,
                      record_count = 2, byte_count = 0,
                      data = [CHR ''a'', CHR 0x0A, CHR ''b'', CHR ''b'', CHR 0x0A, CHR ''c'', CHR ''c'']\<rparr>],
        head := Some 0, tail := Some 0,
        current_record_begin := \<lparr>dp_b = Some 0, dp_pos = 2\<rparr>,
        current_record_end := \<lparr>dp_b = Some 0, dp_pos = 5\<rparr>,
        clients := [idle\<lparr>fd := 5, state := s_send_current\<rparr>, idle]\<rparr>)"
  by (simp add: store_abc_def store_eval store0_def raw0_def)

text \<open>
  The example response in five turns: the header and one byte, \<open>EAGAIN\<close>, one byte, no
  byte, the rest.
\<close>

lemma short_writes_example:
  "seen_by_client 0 (and_then store_abc
       (send_events 0 [Io_ok 11 [], Io_error EAGAIN, Io_ok 1 [], Io_ok 0 [], Io_ok 7 []]))
     = Some (s_wait_close,
             [CHR ''0'', CHR ''0'', CHR ''0'', CHR ''0'', CHR ''0'', CHR ''0'', CHR ''0'', CHR ''0'',
              CHR ''0'', CHR ''3'', CHR ''b'', CHR ''b'', CHR 0x0A])"
  apply (simp add: store_abc_value seen_by_client_def store_eval store0_def idle_def)
  apply (simp add: eval_nat_numeral)
  done

text \<open>
  C3 at a first \<open>writev\<close> call that fails with \<open>EAGAIN\<close>. When the first call writes
  everything the peer receives the header \<open>0000000003\<close> and the record. When the first
  call fails with \<open>EAGAIN\<close>, the client is already in \<open>s_sending_response\<close>; the next
  turn calls \<open>write_record\<close> without the length, and the peer receives the three bytes
  of the record and no header before the client reaches \<open>s_wait_close\<close>.
\<close>

theorem header_lost_after_eagain:
  "seen_by_client 0 (and_then store_abc (send_events 0 [Io_ok 100 []]))
     = Some (s_wait_close,
             [CHR ''0'', CHR ''0'', CHR ''0'', CHR ''0'', CHR ''0'', CHR ''0'', CHR ''0'', CHR ''0'',
              CHR ''0'', CHR ''3'', CHR ''b'', CHR ''b'', CHR 0x0A])
   \<and> seen_by_client 0 (and_then store_abc (send_events 0 [Io_error EAGAIN, Io_ok 100 []]))
     = Some (s_wait_close, [CHR ''b'', CHR ''b'', CHR 0x0A])"
  apply (simp add: store_abc_value seen_by_client_def store_eval store0_def idle_def)
  apply (simp add: eval_nat_numeral)
  done

section \<open>sgsh-writeval.c: commands\<close>

text \<open>
  C7. For a client in state \<open>s_read_command\<close> whose socket is readable, the loop of
  \<open>main\<close> reads the command byte: \<open>L\<close> moves the client to \<open>s_send_last\<close>, \<open>C\<close> to
  \<open>s_send_current\<close>, \<open>Q\<close> unlinks the socket path and exits with status 0, any other
  byte exits with status 1. A client in \<open>s_send_last\<close> is in the set of descriptors to
  write to exactly when the input has reached its end, one in \<open>s_send_current\<close> exactly
  when a record is available; while it is not in the set, serving it changes nothing.
\<close>

theorem read_command_dispatch:
  assumes "i < length (clients st)" and "state (clients st ! i) = s_read_command"
  shows "serve_client i True w (Io_ok 1 [CHR ''L'']) st
           = Inr (with_client st i ((clients st ! i)\<lparr>state := s_send_last\<rparr>))
       \<and> serve_client i True w (Io_ok 1 [CHR ''C'']) st
           = Inr (with_client st i ((clients st ! i)\<lparr>state := s_send_current\<rparr>))
       \<and> serve_client i True w (Io_ok 1 [CHR ''Q'']) st = Inl (Exit 0, st\<lparr>socket_bound := False\<rparr>)
       \<and> (cmd \<noteq> CHR ''L'' \<and> cmd \<noteq> CHR ''C'' \<and> cmd \<noteq> CHR ''Q'' \<longrightarrow>
            serve_client i True w (Io_ok 1 [cmd]) st = Inl (Exit 1, st))
       \<and> in_sink_fds s ((clients st ! i)\<lparr>state := s_send_last\<rparr>) = reached_eof s
       \<and> in_sink_fds s ((clients st ! i)\<lparr>state := s_send_current\<rparr>) = have_record s
       \<and> (j < length (clients s)
            \<and> (state (clients s ! j) = s_send_last \<or> state (clients s ! j) = s_send_current)
            \<and> \<not> in_sink_fds s (clients s ! j) \<longrightarrow>
            serve_client j r (in_sink_fds s (clients s ! j) \<and> ready) io s = Inr s)"
  using assms
  by (auto simp: serve_client_def read_command_def in_sink_fds_def)

text \<open>Witness for C7: one client, the commands \<open>L\<close> and \<open>x\<close>, and no end of input yet.\<close>

theorem read_command_dispatch_witness:
  "serve_client 0 True False (Io_ok 1 [CHR ''L''])
       (with_client (store0 0) 0 (idle\<lparr>fd := 5, state := s_read_command\<rparr>))
     = Inr (with_client (store0 0) 0 (idle\<lparr>fd := 5, state := s_send_last\<rparr>))
   \<and> serve_client 0 True False (Io_ok 1 [CHR ''x''])
       (with_client (store0 0) 0 (idle\<lparr>fd := 5, state := s_read_command\<rparr>))
     = Inl (Exit 1, with_client (store0 0) 0 (idle\<lparr>fd := 5, state := s_read_command\<rparr>))
   \<and> serve_client 0 False (in_sink_fds (with_client (store0 0) 0 (idle\<lparr>fd := 5, state := s_send_last\<rparr>))
                               (idle\<lparr>fd := 5, state := s_send_last\<rparr>) \<and> True) (Io_ok 13 [])
       (with_client (store0 0) 0 (idle\<lparr>fd := 5, state := s_send_last\<rparr>))
     = Inr (with_client (store0 0) 0 (idle\<lparr>fd := 5, state := s_send_last\<rparr>))"
proof -
  let ?st = "with_client (store0 0) 0 (idle\<lparr>fd := 5, state := s_read_command\<rparr>)"
  let ?s = "with_client (store0 0) 0 (idle\<lparr>fd := 5, state := s_send_last\<rparr>)"
  have h: "0 < length (clients ?st)" "state (clients ?st ! 0) = s_read_command"
    by (simp_all add: with_client_def store0_def)
  have x: "CHR ''x'' \<noteq> CHR ''L'' \<and> CHR ''x'' \<noteq> CHR ''C'' \<and> CHR ''x'' \<noteq> CHR ''Q''" by simp
  have j: "0 < length (clients ?s)
            \<and> (state (clients ?s ! 0) = s_send_last \<or> state (clients ?s ! 0) = s_send_current)
            \<and> \<not> in_sink_fds ?s (clients ?s ! 0)"
    by (simp add: with_client_def store0_def in_sink_fds_def idle_def)
  have c: "clients ?s ! 0 = idle\<lparr>fd := 5, state := s_send_last\<rparr>"
    "(clients ?st ! 0)\<lparr>state := s_send_last\<rparr> = idle\<lparr>fd := 5, state := s_send_last\<rparr>"
    "with_client ?st 0 (idle\<lparr>fd := 5, state := s_send_last\<rparr>) = ?s"
    by (simp_all add: with_client_def store0_def)
  from read_command_dispatch[OF h, of False "CHR ''x''" ?s 0 False True "Io_ok 13 []"] x j
  show ?thesis by (simp add: c)
qed

end
